theory Spec2Isabelle
  imports Main "HOL-Library.Multiset"
begin

section \<open>Strings as Go has them\<close>

text \<open>
  A Go string is a sequence of bytes; \<^typ>\<open>string\<close> is a list of 8-bit characters.
  A \<^verbatim>\<open>for i, b := range s\<close> loop does not walk the bytes: at byte offset \<open>i\<close> it
  decodes one UTF-8 sequence into the rune \<open>b\<close> and advances by the width of that
  sequence; a byte that starts no valid sequence yields the rune \<open>0xFFFD\<close> with
  width 1.  \<open>decodeRune\<close> is that decoding step of the language (rune and width) and
  \<open>runeString\<close> is the conversion \<^verbatim>\<open>string(b)\<close> of a rune back to bytes.
\<close>

type_synonym rune = nat

definition RuneError :: rune where
  "RuneError = 0xFFFD"

definition byte :: "char \<Rightarrow> nat" where
  "byte c = of_char c"

definition contByte :: "nat \<Rightarrow> bool" where
  "contByte b = (0x80 \<le> b \<and> b \<le> 0xBF)"

fun decodeRune :: "string \<Rightarrow> rune \<times> nat" where
  "decodeRune [] = (RuneError, 0)"
| "decodeRune (c0 # cs) =
     (let s0 = byte c0 in
      if s0 < 0x80 then (s0, 1)
      else if s0 < 0xC2 \<or> 0xF4 < s0 then (RuneError, 1)
      else
        let sz = (if s0 < 0xE0 then 2 else if s0 < 0xF0 then 3 else 4) :: nat;
            lo = (if s0 = 0xE0 then 0xA0 else if s0 = 0xF0 then 0x90 else 0x80) :: nat;
            hi = (if s0 = 0xED then 0x9F else if s0 = 0xF4 then 0x8F else 0xBF) :: nat
        in
        if length (c0 # cs) < sz then (RuneError, 1)
        else
          let s1 = byte (cs ! 0) in
          if s1 < lo \<or> hi < s1 then (RuneError, 1)
          else if sz \<le> 2 then ((s0 mod 32) * 64 + s1 mod 64, 2)
          else
            let s2 = byte (cs ! 1) in
            if \<not> contByte s2 then (RuneError, 1)
            else if sz \<le> 3 then ((s0 mod 16) * 4096 + (s1 mod 64) * 64 + s2 mod 64, 3)
            else
              let s3 = byte (cs ! 2) in
              if \<not> contByte s3 then (RuneError, 1)
              else ((s0 mod 8) * 262144 + (s1 mod 64) * 4096 + (s2 mod 64) * 64
                      + s3 mod 64, 4))"

definition runeString :: "rune \<Rightarrow> string" where
  "runeString r =
     (let r' = (if 0x10FFFF < r \<or> (0xD800 \<le> r \<and> r \<le> 0xDFFF) then RuneError else r) in
      if r' < 0x80 then [char_of r']
      else if r' < 0x800 then [char_of (0xC0 + r' div 64), char_of (0x80 + r' mod 64)]
      else if r' < 0x10000 then
        [char_of (0xE0 + r' div 4096), char_of (0x80 + (r' div 64) mod 64),
         char_of (0x80 + r' mod 64)]
      else
        [char_of (0xF0 + r' div 262144), char_of (0x80 + (r' div 4096) mod 64),
         char_of (0x80 + (r' div 64) mod 64), char_of (0x80 + r' mod 64)])"

lemma decodeRune_width: "(b, w) = decodeRune (c # cs) \<Longrightarrow> 0 < w"
  by (simp add: Let_def split: if_splits)

declare decodeRune.simps [simp del]

section \<open>Metric-name sanitisation\<close>

text \<open>
  \<^verbatim>\<open>safeMetricName\<close>: the loop over the runes of the checker name.  \<open>i\<close> is the byte
  offset of the rune \<open>b\<close>, \<open>x\<close> the string built so far; the rest of the name is the
  second argument.
\<close>

definition keepRune :: "nat \<Rightarrow> rune \<Rightarrow> bool" where
  "keepRune i b =
     ((byte CHR ''a'' \<le> b \<and> b \<le> byte CHR ''z'') \<or> (byte CHR ''A'' \<le> b \<and> b \<le> byte CHR ''Z'')
      \<or> b = byte CHR ''_'' \<or> b = byte CHR '':''
      \<or> (byte CHR ''0'' \<le> b \<and> b \<le> byte CHR ''9'' \<and> i > 0))"

function safeMetricName_loop :: "nat \<Rightarrow> string \<Rightarrow> string \<Rightarrow> string" where
  "safeMetricName_loop i [] x = x"
| "safeMetricName_loop i (c # cs) x =
     (case decodeRune (c # cs) of (b, w) \<Rightarrow>
        if \<not> keepRune i b
        then safeMetricName_loop (i + w) (drop w (c # cs)) (x @ ''_'')
        else safeMetricName_loop (i + w) (drop w (c # cs)) (x @ runeString b))"
  by pat_completeness auto

termination
  by (relation "measure (\<lambda>(i, s, x). length s)") (auto dest: decodeRune_width)

definition safeMetricName :: "string \<Rightarrow> string" where
  "safeMetricName checkName = safeMetricName_loop 0 checkName ''''"

text \<open>The runes a \<^verbatim>\<open>range\<close> loop over the string yields, in order.\<close>

function runes :: "string \<Rightarrow> rune list" where
  "runes [] = []"
| "runes (c # cs) = (case decodeRune (c # cs) of (b, w) \<Rightarrow> b # runes (drop w (c # cs)))"
  by pat_completeness auto

termination
  by (relation "measure length") (auto dest: decodeRune_width)

section \<open>Check outcomes and results\<close>

definition healthy :: string where "healthy = ''healthy''"
definition degraded :: string where "degraded = ''degraded''"
definition unhealthy :: string where "unhealthy = ''unhealthy''"
definition healthcheckStatus :: string where "healthcheckStatus = ''healthcheck_status''"

record CheckResponse =
  health :: string
  outputText :: string
  action :: string
  impact :: string

text \<open>\<^verbatim>\<open>var cr CheckResponse\<close>: every field is the empty string.\<close>

definition zeroCheckResponse :: CheckResponse where
  "zeroCheckResponse = \<lparr>health = [], outputText = [], action = [], impact = []\<rparr>"

definition Healthy :: "string \<Rightarrow> CheckResponse \<Rightarrow> CheckResponse" where
  "Healthy out cr = cr\<lparr>health := healthy, outputText := out, action := [], impact := []\<rparr>"

definition Degraded :: "string \<Rightarrow> string \<Rightarrow> CheckResponse \<Rightarrow> CheckResponse" where
  "Degraded out act cr = cr\<lparr>health := degraded, outputText := out, action := act, impact := []\<rparr>"

definition Unhealthy :: "string \<Rightarrow> string \<Rightarrow> string \<Rightarrow> CheckResponse \<Rightarrow> CheckResponse" where
  "Unhealthy out act imp cr = cr\<lparr>health := unhealthy, outputText := out, action := act, impact := imp\<rparr>"

record healthResultEntry =
  entryName :: string
  entryHealth :: string
  entryOutput :: string
  entryAction :: string
  entryImpact :: string

record HealthResult =
  Name :: string
  Description :: string
  Health :: string
  CheckResults :: "healthResultEntry list"

definition zeroEntry :: healthResultEntry where
  "zeroEntry = \<lparr>entryName = [], entryHealth = [], entryOutput = [], entryAction = [],
                 entryImpact = []\<rparr>"

section \<open>The Status registry and the process state\<close>

text \<open>
  A probe is a callback on a \<^verbatim>\<open>*CheckResponse\<close>.  What it reports depends on the
  state of the world outside the registry at the time of the round, the parameter
  \<open>'w\<close>; a probe reads it and fills the response it is given.

  The record \<open>checker\<close> has the fields of both revisions of \<^verbatim>\<open>status.go\<close>: the
  revision with one counter per checker has \<open>checkCounter\<close> (a
  \<^verbatim>\<open>*prometheus.CounterVec\<close>, here the address of the vector, \<open>None\<close> for nil), the
  revision with the shared gauge has the field \<open>checkResultGauge\<close> of \<open>Status\<close>
  instead.  \<open>ready\<close> is a closure; the closures the package installs are the
  constructors of \<open>readyFunc\<close>.
\<close>

record 'w checker =
  checkerName :: string
  checkFunc :: "'w \<Rightarrow> CheckResponse \<Rightarrow> CheckResponse"
  checkCounter :: "nat option"

record owner =
  ownerName :: string
  slack :: string

record link =
  linkDescription :: string
  url :: string

datatype 'w readyFunc = FuncAlways | FuncNever | FuncUseHealthCheck | FuncCustom "'w \<Rightarrow> bool"

record 'w Status =
  name :: string
  description :: string
  owners :: "owner list"
  links :: "link list"
  revision :: string
  checkers :: "'w checker list"
  ready :: "'w readyFunc option"
  checkResultGauge :: "nat option"

text \<open>
  What the methods of a \<^verbatim>\<open>*Status\<close> can reach: the Status itself, the names
  registered with the default Prometheus registry, and the metric vectors on the heap.
  A gauge vector maps the label values (\<^verbatim>\<open>healthcheck_name\<close>,
  \<^verbatim>\<open>healthcheck_result\<close>) to the value last set, a counter vector maps the value of
  \<^verbatim>\<open>healthcheck_result\<close> to its count (0 while never incremented).  The values are
  the whole numbers the package sets and adds (\<^verbatim>\<open>Set(0)\<close>, \<^verbatim>\<open>Set(1)\<close>, \<^verbatim>\<open>Inc()\<close>).
  \<open>allocated\<close> counts the vectors created so far: the next \<^verbatim>\<open>NewGaugeVec\<close> or
  \<^verbatim>\<open>NewCounterVec\<close> returns the address \<open>allocated\<close>.
\<close>

record 'w process =
  status :: "'w Status"
  registered :: "string list"
  gaugeVecs :: "nat \<Rightarrow> (string \<times> string) \<rightharpoonup> nat"
  counterVecs :: "nat \<Rightarrow> string \<Rightarrow> nat"
  allocated :: nat

datatype panic = AlreadyRegistered string | IndexOutOfRange nat

definition NewStatus :: "string \<Rightarrow> string \<Rightarrow> 'w process" where
  "NewStatus nm descr =
     \<lparr>status = \<lparr>name = nm, description = descr, owners = [], links = [], revision = [],
                 checkers = [], ready = None, checkResultGauge = None\<rparr>,
      registered = [], gaugeVecs = (\<lambda>g. Map.empty), counterVecs = (\<lambda>c l. 0), allocated = 0\<rparr>"

definition AddOwner :: "string \<Rightarrow> string \<Rightarrow> 'w process \<Rightarrow> 'w process" where
  "AddOwner nm sl p =
     p\<lparr>status := (status p)\<lparr>owners := owners (status p) @ [\<lparr>ownerName = nm, slack = sl\<rparr>]\<rparr>\<rparr>"

definition AddLink :: "string \<Rightarrow> string \<Rightarrow> 'w process \<Rightarrow> 'w process" where
  "AddLink descr u p =
     p\<lparr>status := (status p)\<lparr>links := links (status p) @ [\<lparr>linkDescription = descr, url = u\<rparr>]\<rparr>\<rparr>"

definition SetRevision :: "string \<Rightarrow> 'w process \<Rightarrow> 'w process" where
  "SetRevision r p = p\<lparr>status := (status p)\<lparr>revision := r\<rparr>\<rparr>"

definition AddChecker ::
  "string \<Rightarrow> ('w \<Rightarrow> CheckResponse \<Rightarrow> CheckResponse) \<Rightarrow> 'w process \<Rightarrow> 'w process" where
  "AddChecker nm checkerFunc p =
     p\<lparr>status := (status p)\<lparr>checkers := checkers (status p) @
          [\<lparr>checkerName = nm, checkFunc = checkerFunc, checkCounter = None\<rparr>]\<rparr>\<rparr>"

text \<open>
  \<^verbatim>\<open>prometheus.MustRegister\<close> on the default registry, the collectors given by
  their metric names: adding the same metric twice panics.
\<close>

fun MustRegister :: "string list \<Rightarrow> 'w process \<Rightarrow> panic + 'w process" where
  "MustRegister [] p = Inr p"
| "MustRegister (c # cs) p =
     (if c \<in> set (registered p) then Inl (AlreadyRegistered c)
      else MustRegister cs (p\<lparr>registered := c # registered p\<rparr>))"

definition AddMetrics :: "string list \<Rightarrow> 'w process \<Rightarrow> panic + 'w process" where
  "AddMetrics cs p = MustRegister cs p"

text \<open>\<^verbatim>\<open>strings.Replace(name, " ", "_", -1)\<close>\<close>

definition checkCounterName :: "string \<Rightarrow> string" where
  "checkCounterName nm = map (\<lambda>c. if c = CHR '' '' then CHR ''_'' else c) nm"

definition AddCheckerWithMetrics ::
  "string \<Rightarrow> ('w \<Rightarrow> CheckResponse \<Rightarrow> CheckResponse) \<Rightarrow> 'w process \<Rightarrow> panic + 'w process" where
  "AddCheckerWithMetrics nm checkerFunc p =
     (let checkCounterVec = allocated p;
          p1 = p\<lparr>allocated := Suc checkCounterVec,
                 counterVecs := (counterVecs p)(checkCounterVec := (\<lambda>l. 0))\<rparr>
      in case AddMetrics [checkCounterName nm] p1 of
           Inl e \<Rightarrow> Inl e
         | Inr p2 \<Rightarrow>
             Inr (p2\<lparr>status := (status p2)\<lparr>checkers := checkers (status p2) @
                    [\<lparr>checkerName = nm, checkFunc = checkerFunc,
                      checkCounter = Some checkCounterVec\<rparr>]\<rparr>\<rparr>))"

definition WithInstrumentedChecks :: "'w process \<Rightarrow> panic + 'w process" where
  "WithInstrumentedChecks p =
     (let checkGaugeVec = allocated p;
          p1 = p\<lparr>allocated := Suc checkGaugeVec,
                 gaugeVecs := (gaugeVecs p)(checkGaugeVec := Map.empty)\<rparr>;
          p2 = p1\<lparr>status := (status p1)\<lparr>checkResultGauge := Some checkGaugeVec\<rparr>\<rparr>
      in MustRegister [healthcheckStatus] p2)"

definition ReadyNone :: "'w process \<Rightarrow> 'w process" where
  "ReadyNone p = p\<lparr>status := (status p)\<lparr>ready := None\<rparr>\<rparr>"

definition ReadyAlways :: "'w process \<Rightarrow> 'w process" where
  "ReadyAlways p = p\<lparr>status := (status p)\<lparr>ready := Some FuncAlways\<rparr>\<rparr>"

definition ReadyNever :: "'w process \<Rightarrow> 'w process" where
  "ReadyNever p = p\<lparr>status := (status p)\<lparr>ready := Some FuncNever\<rparr>\<rparr>"

definition ReadyUseHealthCheck :: "'w process \<Rightarrow> 'w process" where
  "ReadyUseHealthCheck p = p\<lparr>status := (status p)\<lparr>ready := Some FuncUseHealthCheck\<rparr>\<rparr>"

definition Ready :: "('w \<Rightarrow> bool) \<Rightarrow> 'w process \<Rightarrow> 'w process" where
  "Ready f p = p\<lparr>status := (status p)\<lparr>ready := Some (FuncCustom f)\<rparr>\<rparr>"

section \<open>Check: running the checkers and deriving the verdict\<close>

text \<open>\<^verbatim>\<open>hr.CheckResults[i] = v\<close>: an index out of range panics.\<close>

definition setSlot :: "nat \<Rightarrow> 'a \<Rightarrow> 'a list \<Rightarrow> panic + 'a list" where
  "setSlot i v xs = (if i < length xs then Inr (xs[i := v]) else Inl (IndexOutOfRange i))"

definition resultEntry :: "'w checker \<Rightarrow> CheckResponse \<Rightarrow> healthResultEntry" where
  "resultEntry ch cr =
     \<lparr>entryName = checkerName ch, entryHealth = health cr, entryOutput = outputText cr,
      entryAction = action cr, entryImpact = impact cr\<rparr>"

text \<open>
  The second loop of \<^verbatim>\<open>Check\<close> and the \<^verbatim>\<open>switch\<close> after it, the same in both
  revisions; the triple is (\<^verbatim>\<open>seenHealthy\<close>, \<^verbatim>\<open>seenDegraded\<close>, \<^verbatim>\<open>seenUnhealthy\<close>).
\<close>

fun seenLoop :: "healthResultEntry list \<Rightarrow> bool \<times> bool \<times> bool \<Rightarrow> bool \<times> bool \<times> bool" where
  "seenLoop [] seen = seen"
| "seenLoop (hcr # rest) (seenHealthy, seenDegraded, seenUnhealthy) =
     (if entryHealth hcr = healthy then seenLoop rest (True, seenDegraded, seenUnhealthy)
      else if entryHealth hcr = degraded then seenLoop rest (seenHealthy, True, seenUnhealthy)
      else if entryHealth hcr = unhealthy then seenLoop rest (seenHealthy, seenDegraded, True)
      else seenLoop rest (seenHealthy, seenDegraded, seenUnhealthy))"

fun overallHealth :: "bool \<times> bool \<times> bool \<Rightarrow> string" where
  "overallHealth (seenHealthy, seenDegraded, seenUnhealthy) =
     (if seenUnhealthy then unhealthy
      else if seenDegraded then degraded
      else if seenHealthy then healthy
      else unhealthy)"

definition newHealthResult :: "'w Status \<Rightarrow> HealthResult" where
  "newHealthResult s =
     \<lparr>Name = name s, Description = description s, Health = [],
      CheckResults = replicate (length (checkers s)) zeroEntry\<rparr>"

subsection \<open>The revision with the shared gauge: one goroutine per checker\<close>

definition gaugeSet :: "nat \<Rightarrow> string \<times> string \<Rightarrow> nat \<Rightarrow> 'w process \<Rightarrow> 'w process" where
  "gaugeSet g labels v p = p\<lparr>gaugeVecs := (gaugeVecs p)(g := (gaugeVecs p g)(labels \<mapsto> v))\<rparr>"

definition possibleStatuses :: "string list" where
  "possibleStatuses = [healthy, unhealthy, degraded]"

fun updateGauges :: "nat \<Rightarrow> 'w checker \<Rightarrow> CheckResponse \<Rightarrow> string list \<Rightarrow> 'w process \<Rightarrow> 'w process" where
  "updateGauges g ch cr [] p = p"
| "updateGauges g ch cr (st # rest) p =
     (if health cr = st
      then updateGauges g ch cr rest (gaugeSet g (safeMetricName (checkerName ch), st) 1 p)
      else updateGauges g ch cr rest (gaugeSet g (safeMetricName (checkerName ch), st) 0 p))"

definition updateCheckMetrics :: "'w checker \<Rightarrow> CheckResponse \<Rightarrow> 'w process \<Rightarrow> 'w process" where
  "updateCheckMetrics ch cr p =
     (case checkResultGauge (status p) of
        None \<Rightarrow> p
      | Some g \<Rightarrow> updateGauges g ch cr possibleStatuses p)"

text \<open>
  What is done for position \<open>i\<close> and checker \<open>ch\<close>, the same text in both revisions
  up to the function that records the outcome (\<open>update\<close>): run the probe on a fresh
  response, write slot \<open>i\<close> of the result slice, record the outcome.
\<close>

definition runChecker ::
  "('w checker \<Rightarrow> CheckResponse \<Rightarrow> 'w process \<Rightarrow> 'w process) \<Rightarrow> 'w \<Rightarrow> nat \<times> 'w checker
     \<Rightarrow> healthResultEntry list \<times> 'w process \<Rightarrow> panic + healthResultEntry list \<times> 'w process" where
  "runChecker update w t st =
     (case t of (i, ch) \<Rightarrow> (case st of (results, p) \<Rightarrow>
        (let cr = checkFunc ch w zeroCheckResponse in
         (case setSlot i (resultEntry ch cr) results of
            Inl e \<Rightarrow> Inl e
          | Inr results' \<Rightarrow> Inr (results', update ch cr p)))))"

text \<open>The body of the goroutine started for one checker.\<close>

definition goroutine ::
  "'w \<Rightarrow> nat \<times> 'w checker \<Rightarrow> healthResultEntry list \<times> 'w process
     \<Rightarrow> panic + healthResultEntry list \<times> 'w process" where
  "goroutine = runChecker updateCheckMetrics"

fun runAll ::
  "('t \<Rightarrow> 's \<Rightarrow> panic + 's) \<Rightarrow> 't list \<Rightarrow> 's \<Rightarrow> panic + 's" where
  "runAll body [] st = Inr st"
| "runAll body (t # ts) st =
     (case body t st of Inl e \<Rightarrow> Inl e | Inr st' \<Rightarrow> runAll body ts st')"

text \<open>
  The goroutines run concurrently and \<^verbatim>\<open>wg.Wait()\<close> returns when all of them are
  done.  The scheduler is a list of choices: each number picks, among the goroutines
  still pending, the one that runs next; when the choices are used up the rest run in
  the order they were started.  Every list of choices is a schedule, and every order
  of the goroutines is the result of one.
\<close>

primrec completionOrder :: "nat list \<Rightarrow> 'a list \<Rightarrow> 'a list" where
  "completionOrder [] pending = pending"
| "completionOrder (k # sched) pending =
     (if pending = [] then []
      else let j = k mod length pending
           in pending ! j # completionOrder sched (take j pending @ drop (Suc j) pending))"

definition Check :: "nat list \<Rightarrow> 'w \<Rightarrow> 'w process \<Rightarrow> panic + HealthResult \<times> 'w process" where
  "Check sched w p =
     (let s = status p;
          hr = newHealthResult s;
          started = zip [0..<length (checkers s)] (checkers s)
      in case runAll (goroutine w) (completionOrder sched started) (CheckResults hr, p) of
           Inl e \<Rightarrow> Inl e
         | Inr (results, p') \<Rightarrow>
             Inr (hr\<lparr>CheckResults := results,
                     Health := overallHealth (seenLoop results (False, False, False))\<rparr>, p'))"

subsection \<open>The revision with one counter per checker: a sequential loop\<close>

definition counterInc :: "nat \<Rightarrow> string \<Rightarrow> 'w process \<Rightarrow> 'w process" where
  "counterInc c l p =
     p\<lparr>counterVecs := (counterVecs p)(c := (counterVecs p c)(l := counterVecs p c l + 1))\<rparr>"

definition updateCheckMetrics_ctr :: "'w checker \<Rightarrow> CheckResponse \<Rightarrow> 'w process \<Rightarrow> 'w process" where
  "updateCheckMetrics_ctr ch cr p =
     (case checkCounter ch of
        None \<Rightarrow> p
      | Some c \<Rightarrow> counterInc c (health cr) p)"

definition loopBody_ctr ::
  "'w \<Rightarrow> nat \<times> 'w checker \<Rightarrow> healthResultEntry list \<times> 'w process
     \<Rightarrow> panic + healthResultEntry list \<times> 'w process" where
  "loopBody_ctr = runChecker updateCheckMetrics_ctr"

definition Check_ctr :: "'w \<Rightarrow> 'w process \<Rightarrow> panic + HealthResult \<times> 'w process" where
  "Check_ctr w p =
     (let s = status p;
          hr = newHealthResult s
      in case runAll (loopBody_ctr w) (zip [0..<length (checkers s)] (checkers s))
                (CheckResults hr, p) of
           Inl e \<Rightarrow> Inl e
         | Inr (results, p') \<Rightarrow>
             Inr (hr\<lparr>CheckResults := results,
                     Health := overallHealth (seenLoop results (False, False, False))\<rparr>, p'))"

section \<open>Readiness\<close>

text \<open>
  Calling the closure stored in \<^verbatim>\<open>s.ready\<close>.  The closure of
  \<^verbatim>\<open>ReadyUseHealthCheck\<close> holds the pointer \<^verbatim>\<open>s\<close>, not a copy: it runs
  \<^verbatim>\<open>s.Check()\<close>, the parameter \<open>check\<close> (either revision), on the process as it is
  when the closure is called.
\<close>

fun callReady ::
  "('w \<Rightarrow> 'w process \<Rightarrow> panic + HealthResult \<times> 'w process) \<Rightarrow> 'w readyFunc \<Rightarrow> 'w \<Rightarrow> 'w process
     \<Rightarrow> panic + bool \<times> 'w process" where
  "callReady check FuncAlways w p = Inr (True, p)"
| "callReady check FuncNever w p = Inr (False, p)"
| "callReady check (FuncCustom f) w p = Inr (f w, p)"
| "callReady check FuncUseHealthCheck w p =
     (case check w p of
        Inl e \<Rightarrow> Inl e
      | Inr (hr, p') \<Rightarrow>
          Inr (if Health hr = healthy then True
               else if Health hr = degraded then True
               else False, p'))"

section \<open>The health endpoint\<close>

text \<open>
  \<^verbatim>\<open>newHealthCheckHandler\<close> returns a handler; \<open>ServeHTTP\<close> serves one request with
  it, on the process as it is at the time of the request.  \<open>NotFoundHandler\<close> is
  \<^verbatim>\<open>http.NotFoundHandler()\<close>, \<open>HealthCheckFunc\<close> the closure of
  \<^verbatim>\<open>op/handlers.go\<close> and \<open>HealthCheckFunc_rq\<close> the closure of the revision that
  looks at the checkers on every request.  \<^verbatim>\<open>newEncoder\<close> is not part of these
  files: \<open>encode\<close> stands for it, \<open>None\<close> when encoding fails.
\<close>

datatype handler = NotFoundHandler | HealthCheckFunc | HealthCheckFunc_rq

record response =
  code :: nat
  body :: string

definition notFound :: response where
  "notFound = \<lparr>code = 404, body = ''404 page not found'' @ [CHR 0x0A]\<rparr>"

definition newHealthCheckHandler :: "'w process \<Rightarrow> handler" where
  "newHealthCheckHandler hc =
     (if length (checkers (status hc)) = 0 then NotFoundHandler else HealthCheckFunc)"

definition newHealthCheckHandler_rq :: "'w process \<Rightarrow> handler" where
  "newHealthCheckHandler_rq hc = HealthCheckFunc_rq"

definition writeHealth ::
  "(HealthResult \<Rightarrow> string option) \<Rightarrow> panic + HealthResult \<times> 'w process
     \<Rightarrow> panic + response \<times> 'w process" where
  "writeHealth encode r =
     (case r of
        Inl e \<Rightarrow> Inl e
      | Inr (hr, hc') \<Rightarrow>
          (case encode hr of
             None \<Rightarrow> Inr (\<lparr>code = 500, body = []\<rparr>, hc')
           | Some j \<Rightarrow> Inr (\<lparr>code = 200, body = j\<rparr>, hc')))"

fun ServeHTTP ::
  "(HealthResult \<Rightarrow> string option) \<Rightarrow> ('w \<Rightarrow> 'w process \<Rightarrow> panic + HealthResult \<times> 'w process)
     \<Rightarrow> handler \<Rightarrow> 'w \<Rightarrow> 'w process \<Rightarrow> panic + response \<times> 'w process" where
  "ServeHTTP encode check NotFoundHandler w hc = Inr (notFound, hc)"
| "ServeHTTP encode check HealthCheckFunc w hc = writeHealth encode (check w hc)"
| "ServeHTTP encode check HealthCheckFunc_rq w hc =
     (if length (checkers (status hc)) = 0 then Inr (notFound, hc)
      else writeHealth encode (check w hc))"

section \<open>Registries of the package's tests\<close>

text \<open>
  The registry of \<^verbatim>\<open>TestHealthCheckWithMetrics\<close> for the shared gauge (three checkers
  added with \<^verbatim>\<open>AddChecker\<close>, then \<^verbatim>\<open>WithInstrumentedChecks\<close>) and the one for the
  counters (three checkers added with \<^verbatim>\<open>AddCheckerWithMetrics\<close>).  The probes
  ignore the world.
\<close>

definition mongoApp :: "unit process" where
  "mongoApp = projr (WithInstrumentedChecks
      (AddChecker ''check api'' (\<lambda>w. Degraded ''thing failed'' ''fix the thing'')
      (AddChecker ''check kafka'' (\<lambda>w. Unhealthy ''thing failed'' ''fix the thing'' ''very bad'')
      (AddChecker ''check mongo'' (\<lambda>w. Healthy ''check command completed ok'')
        (NewStatus ''my app'' ''app description'')))))"

definition counterApp :: "unit process" where
  "counterApp = projr (AddCheckerWithMetrics ''check the bar baz''
        (\<lambda>w. Degraded ''thing failed'' ''fix the thing'')
      (projr (AddCheckerWithMetrics ''check the unhealthy one''
        (\<lambda>w. Unhealthy ''thing failed'' ''fix the thing'' ''very bad'')
      (projr (AddCheckerWithMetrics ''check the foo bar''
        (\<lambda>w. Healthy ''check command completed ok'')
        (NewStatus ''my app'' ''app description''))))))"

section \<open>Notions used to state the properties\<close>

text \<open>
  The sanitisation rule as the specification words it, on the runes of the name:
  position \<open>k\<close> counts runes, and a rune is kept when it is an ASCII letter, an
  underscore (95), a colon (58), or an ASCII digit at a position after the first.
\<close>

definition asciiLetter :: "rune \<Rightarrow> bool" where
  "asciiLetter b = ((97 \<le> b \<and> b \<le> 122) \<or> (65 \<le> b \<and> b \<le> 90))"

definition asciiDigit :: "rune \<Rightarrow> bool" where
  "asciiDigit b = (48 \<le> b \<and> b \<le> 57)"

definition specKeeps :: "nat \<Rightarrow> rune \<Rightarrow> bool" where
  "specKeeps k b = (asciiLetter b \<or> b = 95 \<or> b = 58 \<or> (asciiDigit b \<and> 0 < k))"

fun spec_sanitize :: "nat \<Rightarrow> rune list \<Rightarrow> string" where
  "spec_sanitize k [] = []"
| "spec_sanitize k (b # bs) =
     (if specKeeps k b then char_of b else CHR ''_'') # spec_sanitize (Suc k) bs"

text \<open>The entry a checker's probe yields in the world \<open>w\<close>.\<close>

definition probeEntry :: "'w \<Rightarrow> 'w checker \<Rightarrow> healthResultEntry" where
  "probeEntry w ch = resultEntry ch (checkFunc ch w zeroCheckResponse)"

text \<open>Successive calls of \<^verbatim>\<open>Check\<close> (counter revision), one for each world of the list.\<close>

fun CheckRounds_ctr :: "'w list \<Rightarrow> 'w process \<Rightarrow> panic + 'w process" where
  "CheckRounds_ctr [] p = Inr p"
| "CheckRounds_ctr (w # ws) p =
     (case Check_ctr w p of Inl e \<Rightarrow> Inl e | Inr (hr, p') \<Rightarrow> CheckRounds_ctr ws p')"

text \<open>
  The counter vectors of the registered checkers.  \<^verbatim>\<open>AddCheckerWithMetrics\<close> creates
  a new vector for each checker, so in a registry built with the methods of the
  package no two checkers hold the same vector: \<open>countersFresh\<close>.
\<close>

definition counterHandles :: "'w process \<Rightarrow> nat list" where
  "counterHandles p = List.map_filter checkCounter (checkers (status p))"

definition countersFresh :: "'w process \<Rightarrow> bool" where
  "countersFresh p =
     (distinct (counterHandles p) \<and> list_all (\<lambda>c. c < allocated p) (counterHandles p))"

text \<open>
  The processes that the methods of the counter revision lead to, from \<^verbatim>\<open>NewStatus\<close>
  on: every method that returns (without a panic) leads from a built process to a
  built process.
\<close>

inductive built_ctr :: "'w process \<Rightarrow> bool" where
  NewStatus: "built_ctr (NewStatus nm descr)"
| AddOwner: "built_ctr p \<Longrightarrow> built_ctr (AddOwner nm sl p)"
| AddLink: "built_ctr p \<Longrightarrow> built_ctr (AddLink descr u p)"
| SetRevision: "built_ctr p \<Longrightarrow> built_ctr (SetRevision r p)"
| AddCheckerWithMetrics:
    "built_ctr p \<Longrightarrow> AddCheckerWithMetrics nm f p = Inr p' \<Longrightarrow> built_ctr p'"
| AddChecker: "built_ctr p \<Longrightarrow> built_ctr (AddChecker nm f p)"
| AddMetrics: "built_ctr p \<Longrightarrow> AddMetrics cs p = Inr p' \<Longrightarrow> built_ctr p'"
| ReadyNone: "built_ctr p \<Longrightarrow> built_ctr (ReadyNone p)"
| ReadyAlways: "built_ctr p \<Longrightarrow> built_ctr (ReadyAlways p)"
| ReadyNever: "built_ctr p \<Longrightarrow> built_ctr (ReadyNever p)"
| ReadyUseHealthCheck: "built_ctr p \<Longrightarrow> built_ctr (ReadyUseHealthCheck p)"
| Ready: "built_ctr p \<Longrightarrow> built_ctr (Ready g p)"
| Check: "built_ctr p \<Longrightarrow> Check_ctr w p = Inr (hr, p') \<Longrightarrow> built_ctr p'"

section \<open>Sanitisation: the loop against the rule\<close>

lemma keepRune_iff: "(i = 0 \<longleftrightarrow> k = (0::nat)) \<Longrightarrow> keepRune i b = specKeeps k b"
  by (auto simp: keepRune_def specKeeps_def asciiLetter_def asciiDigit_def byte_def)

lemma keepRune_runeString: "keepRune i b \<Longrightarrow> runeString b = [char_of b]"
  by (auto simp: keepRune_def runeString_def byte_def Let_def)

lemma safeMetricName_loop_spec:
  "(i = 0 \<longleftrightarrow> k = (0::nat)) \<Longrightarrow> safeMetricName_loop i s x = x @ spec_sanitize k (runes s)"
proof (induction i s x arbitrary: k rule: safeMetricName_loop.induct)
  case (1 i x)
  then show ?case by simp
next
  case (2 i c cs x)
  obtain b w where d: "decodeRune (c # cs) = (b, w)" by (cases "decodeRune (c # cs)")
  then have w: "0 < w" using decodeRune_width [of b w c cs] by simp
  then have pos: "(i + w = 0) = (Suc k = 0)" by simp
  have k: "keepRune i b = specKeeps k b"
    using 2(3) by (rule keepRune_iff)
  show ?case
  proof (cases "keepRune i b")
    case True
    then have nn: "\<not> \<not> keepRune i b" by simp
    have "safeMetricName_loop i (c # cs) x
          = safeMetricName_loop (i + w) (drop w (c # cs)) (x @ runeString b)"
      using d True by simp
    also have "\<dots> = (x @ runeString b) @ spec_sanitize (Suc k) (runes (drop w (c # cs)))"
      by (rule 2(2) [OF d [symmetric] nn pos])
    also have "\<dots> = x @ spec_sanitize k (runes (c # cs))"
      using d True k by (simp add: keepRune_runeString [OF True])
    finally show ?thesis .
  next
    case False
    have "safeMetricName_loop i (c # cs) x
          = safeMetricName_loop (i + w) (drop w (c # cs)) (x @ ''_'')"
      using d False by simp
    also have "\<dots> = (x @ ''_'') @ spec_sanitize (Suc k) (runes (drop w (c # cs)))"
      by (rule 2(1) [OF d [symmetric] False pos])
    also have "\<dots> = x @ spec_sanitize k (runes (c # cs))"
      using d False k by simp
    finally show ?thesis .
  qed
qed

lemma safeMetricName_spec: "safeMetricName nm = spec_sanitize 0 (runes nm)"
  by (simp add: safeMetricName_def safeMetricName_loop_spec [of 0 0])

lemma length_spec_sanitize: "length (spec_sanitize k bs) = length bs"
  by (induction bs arbitrary: k) simp_all

lemma nth_spec_sanitize:
  "j < length bs \<Longrightarrow>
   spec_sanitize k bs ! j = (if specKeeps (k + j) (bs ! j) then char_of (bs ! j) else CHR ''_'')"
proof (induction bs arbitrary: k j)
  case Nil
  then show ?case by simp
next
  case (Cons b bs)
  then show ?case by (cases j) simp_all
qed

text \<open>One step of the loop on an ASCII byte, for evaluating it on ASCII names.\<close>

lemma safeMetricName_loop_ascii:
  "byte c < 128 \<Longrightarrow>
   safeMetricName_loop i (c # cs) x
     = safeMetricName_loop (Suc i) cs (x @ (if keepRune i (byte c) then [c] else ''_''))"
  by (simp add: decodeRune.simps runeString_def byte_def)

declare safeMetricName_loop.simps(2) [simp del]

lemmas safeMetricName_ascii =
  safeMetricName_def safeMetricName_loop_ascii byte_def keepRune_def

text \<open>
  C4.  For every checker name, \<^verbatim>\<open>safeMetricName\<close> yields one character for each
  character (rune) of the name: the character itself when it is an ASCII letter, an
  underscore, a colon, or an ASCII digit at a position after the first, and an
  underscore otherwise, also for a digit in the first position.  In particular
  "check the foo bar" becomes "check_the_foo_bar" and "1check" becomes "_check".
\<close>

theorem safeMetricName_sanitizes:
  "length (safeMetricName nm) = length (runes nm) \<and>
   (\<forall>k < length (runes nm).
      safeMetricName nm ! k =
        (if specKeeps k (runes nm ! k) then char_of (runes nm ! k) else CHR ''_'')) \<and>
   safeMetricName ''check the foo bar'' = ''check_the_foo_bar'' \<and>
   safeMetricName ''1check'' = ''_check''"
proof -
  have e1: "safeMetricName ''check the foo bar'' = ''check_the_foo_bar''"
    by (simp add: safeMetricName_ascii)
  have e2: "safeMetricName ''1check'' = ''_check''"
    by (simp add: safeMetricName_ascii)
  have "length (safeMetricName nm) = length (runes nm)"
    by (simp add: safeMetricName_spec length_spec_sanitize)
  moreover have "\<forall>k < length (runes nm).
      safeMetricName nm ! k =
        (if specKeeps k (runes nm ! k) then char_of (runes nm ! k) else CHR ''_'')"
    by (simp add: safeMetricName_spec nth_spec_sanitize)
  ultimately show ?thesis using e1 e2 by simp
qed

text \<open>
  A name of six bytes, the two bytes of U+00E9 in the middle: five runes, of which the
  leading digit, the non-ASCII letter and the hyphen become underscores.
\<close>

theorem safeMetricName_sanitizes_witness:
  "runes [CHR ''1'', CHR ''a'', CHR 0xC3, CHR 0xA9, CHR ''-'', CHR ''9''] = [49, 97, 233, 45, 57] \<and>
   safeMetricName [CHR ''1'', CHR ''a'', CHR 0xC3, CHR 0xA9, CHR ''-'', CHR ''9''] = ''_a__9''"
proof -
  let ?nm = "[CHR ''1'', CHR ''a'', CHR 0xC3, CHR 0xA9, CHR ''-'', CHR ''9'']"
  have r: "runes ?nm = [49, 97, 233, 45, 57]"
    by (simp add: decodeRune.simps byte_def contByte_def)
  have k: "specKeeps 0 49 = False" "\<And>j. specKeeps j 97 = True" "\<And>j. specKeeps j 233 = False"
    "\<And>j. specKeeps j 45 = False" "specKeeps 4 57 = True"
    by (simp_all add: specKeeps_def asciiLetter_def asciiDigit_def)
  have c: "char_of (97 :: nat) = CHR ''a''" "char_of (57 :: nat) = CHR ''9''"
    by (simp_all add: char_of_eq_iff)
  from safeMetricName_sanitizes [of ?nm]
  have l: "length (safeMetricName ?nm) = 5"
    and n: "\<And>j. j < 5 \<Longrightarrow> safeMetricName ?nm ! j =
          (if specKeeps j ([49, 97, 233, 45, 57] ! j) then char_of ([49, 97, 233, 45, 57 :: nat] ! j)
           else CHR ''_'')"
    by (simp_all only: r) simp_all
  have "safeMetricName ?nm ! 0 = CHR ''_''" "safeMetricName ?nm ! 1 = CHR ''a''"
    "safeMetricName ?nm ! 2 = CHR ''_''" "safeMetricName ?nm ! 3 = CHR ''_''"
    "safeMetricName ?nm ! 4 = CHR ''9''"
    by (simp_all add: n k c)
  with l have "safeMetricName ?nm = ''_a__9''"
    by (simp add: list_eq_iff_nth_eq less_Suc_eq numeral_2_eq_2 numeral_3_eq_3
          eval_nat_numeral)
  with r show ?thesis by simp
qed

section \<open>The two loops of Check\<close>

lemma runChecker_Inr:
  "i < length rs \<Longrightarrow>
   runChecker upd w (i, ch) (rs, p) =
     Inr (rs[i := resultEntry ch (checkFunc ch w zeroCheckResponse)],
          upd ch (checkFunc ch w zeroCheckResponse) p)"
  by (simp add: runChecker_def setSlot_def Let_def)

lemma runChecker_Inl:
  "\<not> i < length rs \<Longrightarrow> runChecker upd w (i, ch) (rs, p) = Inl (IndexOutOfRange i)"
  by (simp add: runChecker_def setSlot_def Let_def)

lemma runAll_total:
  "\<forall>t\<in>set ts. fst t < length rs \<Longrightarrow>
   \<exists>rs' p'. runAll (runChecker upd w) ts (rs, p) = Inr (rs', p') \<and> length rs' = length rs"
proof (induction ts arbitrary: rs p)
  case Nil
  then show ?case by simp
next
  case (Cons t ts)
  obtain i ch where t: "t = (i, ch)" by (cases t)
  with Cons.prems have i: "i < length rs" by simp
  let ?rs1 = "rs[i := resultEntry ch (checkFunc ch w zeroCheckResponse)]"
  have "\<forall>t\<in>set ts. fst t < length ?rs1" using Cons.prems by simp
  from Cons.IH [OF this] show ?case using t i by (simp add: runChecker_Inr)
qed

lemma runAll_cases:
  assumes "runAll (runChecker upd w) ((i, ch) # ts) (rs, p) = Inr (rs', p')"
  shows "i < length rs \<and>
         runAll (runChecker upd w) ts
           (rs[i := resultEntry ch (checkFunc ch w zeroCheckResponse)],
            upd ch (checkFunc ch w zeroCheckResponse) p) = Inr (rs', p')"
proof (cases "i < length rs")
  case True
  with assms show ?thesis by (simp add: runChecker_Inr)
next
  case False
  with assms show ?thesis by (simp add: runChecker_Inl)
qed

lemma runAll_untouched:
  "runAll (runChecker upd w) ts (rs, p) = Inr (rs', p') \<Longrightarrow> i \<notin> fst ` set ts \<Longrightarrow>
   rs' ! i = rs ! i"
proof (induction ts arbitrary: rs p)
  case Nil
  then show ?case by simp
next
  case (Cons t ts)
  obtain i0 ch where t: "t = (i0, ch)" by (cases t)
  from Cons.prems(1) [unfolded t] have
    run: "runAll (runChecker upd w) ts
       (rs[i0 := resultEntry ch (checkFunc ch w zeroCheckResponse)],
        upd ch (checkFunc ch w zeroCheckResponse) p) = Inr (rs', p')"
    by (rule runAll_cases [THEN conjunct2])
  from Cons.prems(2) t have "i \<noteq> i0" "i \<notin> fst ` set ts" by auto
  with Cons.IH [OF run] show ?case by simp
qed

lemma runAll_slot:
  "runAll (runChecker upd w) ts (rs, p) = Inr (rs', p') \<Longrightarrow> distinct (map fst ts) \<Longrightarrow>
   (i, ch) \<in> set ts \<Longrightarrow> rs' ! i = probeEntry w ch"
proof (induction ts arbitrary: rs p)
  case Nil
  then show ?case by simp
next
  case (Cons t ts)
  obtain i0 ch0 where t: "t = (i0, ch0)" by (cases t)
  let ?rs1 = "rs[i0 := resultEntry ch0 (checkFunc ch0 w zeroCheckResponse)]"
  from runAll_cases [OF Cons.prems(1) [unfolded t]] have i0: "i0 < length rs"
    and run: "runAll (runChecker upd w) ts
       (?rs1, upd ch0 (checkFunc ch0 w zeroCheckResponse) p) = Inr (rs', p')"
    by simp_all
  show ?case
  proof (cases "(i, ch) \<in> set ts")
    case True
    from Cons.IH [OF run _ True] Cons.prems(2) show ?thesis by simp
  next
    case False
    with Cons.prems(3) t have eq: "i = i0" "ch = ch0" by auto
    from Cons.prems(2) t have "i0 \<notin> fst ` set ts" by simp
    from runAll_untouched [OF run this] i0 show ?thesis
      by (simp add: eq probeEntry_def)
  qed
qed

lemma outcomes_distinct:
  "healthy \<noteq> degraded" "healthy \<noteq> unhealthy" "degraded \<noteq> unhealthy"
  "healthy \<noteq> []" "degraded \<noteq> []" "unhealthy \<noteq> []"
  by (simp_all add: healthy_def degraded_def unhealthy_def)




lemma mset_completionOrder: "mset (completionOrder sched ts) = mset ts"
proof (induction sched arbitrary: ts)
  case Nil
  then show ?case by simp
next
  case (Cons k sched)
  show ?case
  proof (cases "ts = []")
    case True
    then show ?thesis by simp
  next
    case False
    define j where "j = k mod length ts"
    have j: "j < length ts" using False by (simp add: j_def)
    have "mset ts = mset (take j ts @ ts ! j # drop (Suc j) ts)"
      using j by (simp add: id_take_nth_drop [symmetric])
    then show ?thesis using False Cons.IH [of "take j ts @ drop (Suc j) ts"]
      by (simp add: j_def [symmetric] Let_def)
  qed
qed

lemma started_mem:
  "(i, ch) \<in> set (zip [0..<length chs] chs) \<longleftrightarrow> i < length chs \<and> ch = chs ! i"
proof
  assume "(i, ch) \<in> set (zip [0..<length chs] chs)"
  then show "i < length chs \<and> ch = chs ! i" by (auto simp: set_zip)
next
  assume "i < length chs \<and> ch = chs ! i"
  then have "(i, ch) = zip [0..<length chs] chs ! i" "i < length (zip [0..<length chs] chs)"
    by simp_all
  then show "(i, ch) \<in> set (zip [0..<length chs] chs)" by (metis nth_mem)
qed

lemma runAll_started:
  assumes ts: "mset ts = mset (zip [0..<length chs] chs)"
  shows "\<exists>p'. runAll (runChecker upd w) ts (replicate (length chs) zeroEntry, p)
               = Inr (map (probeEntry w) chs, p')"
proof -
  let ?n = "length chs"
  have set_ts: "set ts = set (zip [0..<?n] chs)" using ts by (rule mset_eq_setD)
  have "mset (map fst ts) = mset (map fst (zip [0..<?n] chs))" using ts by (metis mset_map)
  then have "mset (map fst ts) = mset [0..<?n]" by simp
  then have dist: "distinct (map fst ts)" by (metis distinct_upt mset_eq_imp_distinct_iff)
  have "\<forall>t\<in>set ts. fst t < length (replicate ?n zeroEntry)"
    using set_ts by (auto simp: set_zip)
  from runAll_total [OF this, of upd w p] obtain rs' p' where
    run: "runAll (runChecker upd w) ts (replicate ?n zeroEntry, p) = Inr (rs', p')"
    and len: "length rs' = ?n" by auto
  have "rs' ! i = map (probeEntry w) chs ! i" if "i < ?n" for i
  proof -
    from that have "(i, chs ! i) \<in> set ts" by (simp add: set_ts started_mem)
    from runAll_slot [OF run dist this] that show ?thesis by simp
  qed
  then have "rs' = map (probeEntry w) chs" using len by (simp add: list_eq_iff_nth_eq)
  with run show ?thesis by blast
qed

lemma Check_returns:
  "\<exists>p'. Check sched w p =
     Inr (\<lparr>Name = name (status p), Description = description (status p),
           Health = overallHealth
             (seenLoop (map (probeEntry w) (checkers (status p))) (False, False, False)),
           CheckResults = map (probeEntry w) (checkers (status p))\<rparr>, p')"
proof -
  let ?chs = "checkers (status p)"
  have "mset (completionOrder sched (zip [0..<length ?chs] ?chs))
          = mset (zip [0..<length ?chs] ?chs)"
    by (rule mset_completionOrder)
  from runAll_started [OF this, of updateCheckMetrics w p] obtain p' where
    "runAll (goroutine w) (completionOrder sched (zip [0..<length ?chs] ?chs))
       (replicate (length ?chs) zeroEntry, p) = Inr (map (probeEntry w) ?chs, p')"
    by (auto simp: goroutine_def)
  then show ?thesis by (simp add: Check_def newHealthResult_def Let_def)
qed

lemma Check_ctr_returns:
  "\<exists>p'. Check_ctr w p =
     Inr (\<lparr>Name = name (status p), Description = description (status p),
           Health = overallHealth
             (seenLoop (map (probeEntry w) (checkers (status p))) (False, False, False)),
           CheckResults = map (probeEntry w) (checkers (status p))\<rparr>, p')"
proof -
  let ?chs = "checkers (status p)"
  from runAll_started [OF refl, of updateCheckMetrics_ctr w ?chs p] obtain p' where
    "runAll (loopBody_ctr w) (zip [0..<length ?chs] ?chs)
       (replicate (length ?chs) zeroEntry, p) = Inr (map (probeEntry w) ?chs, p')"
    by (auto simp: loopBody_ctr_def)
  then show ?thesis by (simp add: Check_ctr_def newHealthResult_def Let_def)
qed

lemma Check_either:
  assumes "Check sched w p = Inr (hr, p') \<or> Check_ctr w p = Inr (hr, p')"
  shows "hr = \<lparr>Name = name (status p), Description = description (status p),
           Health = overallHealth
             (seenLoop (map (probeEntry w) (checkers (status p))) (False, False, False)),
           CheckResults = map (probeEntry w) (checkers (status p))\<rparr>"
  using assms Check_returns [of sched w p] Check_ctr_returns [of w p] by auto

section \<open>The verdict and the order of the results\<close>


lemmas fixture_simps =
  mongoApp_def counterApp_def WithInstrumentedChecks_def AddCheckerWithMetrics_def
  AddMetrics_def checkCounterName_def AddChecker_def NewStatus_def Let_def
  Healthy_def Degraded_def Unhealthy_def healthy_def degraded_def unhealthy_def
  healthcheckStatus_def zeroCheckResponse_def probeEntry_def resultEntry_def

text \<open>Building the gauge registry of the test does not panic.\<close>

lemma mongoApp_built:
  "WithInstrumentedChecks
      (AddChecker ''check api'' (\<lambda>w. Degraded ''thing failed'' ''fix the thing'')
      (AddChecker ''check kafka'' (\<lambda>w. Unhealthy ''thing failed'' ''fix the thing'' ''very bad'')
      (AddChecker ''check mongo'' (\<lambda>w. Healthy ''check command completed ok'')
        (NewStatus ''my app'' ''app description'')))) = Inr mongoApp"
  by (simp add: fixture_simps)



text \<open>
  C2.  The result slice has one entry per registered checker, and its \<open>i\<close>-th entry is
  the one built from the \<open>i\<close>-th registered checker: its name and the outcome its
  probe produced.  This holds for the sequential loop and, for the goroutines, under
  every schedule: each goroutine writes the slot of its own position.
\<close>

theorem Check_results_in_registration_order:
  assumes "Check sched w p = Inr (hr, p') \<or> Check_ctr w p = Inr (hr, p')"
  shows "length (CheckResults hr) = length (checkers (status p)) \<and>
         (\<forall>i<length (checkers (status p)).
            CheckResults hr ! i =
              resultEntry (checkers (status p) ! i)
                (checkFunc (checkers (status p) ! i) w zeroCheckResponse) \<and>
            entryName (CheckResults hr ! i) = checkerName (checkers (status p) ! i) \<and>
            entryHealth (CheckResults hr ! i)
              = health (checkFunc (checkers (status p) ! i) w zeroCheckResponse))"
  by (subst (1 2 3 4) Check_either [OF assms]) (simp add: probeEntry_def resultEntry_def)

text \<open>
  Two schedules of the gauge registry of the test, completing the checkers in the
  orders 2, 0, 1 and 1, 2, 0, give the same entries in registration order; so does the
  sequential loop on the counter registry.
\<close>

theorem Check_results_in_registration_order_witness:
  "\<exists>hr p' hr2 p2 hr3 p3.
     Check [2, 0] () mongoApp = Inr (hr, p') \<and> Check [1, 1, 0] () mongoApp = Inr (hr2, p2) \<and>
     Check_ctr () counterApp = Inr (hr3, p3) \<and>
     completionOrder [2, 0] [0, 1, 2 :: nat] = [2, 0, 1] \<and>
     completionOrder [1, 1, 0] [0, 1, 2 :: nat] = [1, 2, 0] \<and>
     map entryName (CheckResults hr) = [''check mongo'', ''check kafka'', ''check api''] \<and>
     map entryHealth (CheckResults hr) = [healthy, unhealthy, degraded] \<and>
     CheckResults hr2 = CheckResults hr \<and>
     map entryName (CheckResults hr3)
       = [''check the foo bar'', ''check the unhealthy one'', ''check the bar baz''] \<and>
     map entryHealth (CheckResults hr3) = [healthy, unhealthy, degraded]"
proof -
  obtain hr p' where c: "Check [2, 0] () mongoApp = Inr (hr, p')"
    using Check_returns [of "[2, 0]" "()" mongoApp] by blast
  obtain hr2 p2 where c2: "Check [1, 1, 0] () mongoApp = Inr (hr2, p2)"
    using Check_returns [of "[1, 1, 0]" "()" mongoApp] by blast
  obtain hr3 p3 where c3: "Check_ctr () counterApp = Inr (hr3, p3)"
    using Check_ctr_returns [of "()" counterApp] by blast
  have n: "length (checkers (status mongoApp)) = 3" "length (checkers (status counterApp)) = 3"
    by (simp_all add: fixture_simps)
  note t = Check_results_in_registration_order [of "[2, 0]" "()" mongoApp hr p']
  note t2 = Check_results_in_registration_order [of "[1, 1, 0]" "()" mongoApp hr2 p2]
  note t3 = Check_results_in_registration_order [of "[]" "()" counterApp hr3 p3]
  have l: "length (CheckResults hr) = 3" "length (CheckResults hr2) = 3"
    "length (CheckResults hr3) = 3"
    using t t2 t3 c c2 c3 n by simp_all
  have e: "CheckResults hr ! i = resultEntry (checkers (status mongoApp) ! i)
                (checkFunc (checkers (status mongoApp) ! i) () zeroCheckResponse)"
    and e2: "CheckResults hr2 ! i = resultEntry (checkers (status mongoApp) ! i)
                (checkFunc (checkers (status mongoApp) ! i) () zeroCheckResponse)"
    and e3: "CheckResults hr3 ! i = resultEntry (checkers (status counterApp) ! i)
                (checkFunc (checkers (status counterApp) ! i) () zeroCheckResponse)"
    if "i < 3" for i
    using t t2 t3 c c2 c3 n that by simp_all
  have same: "CheckResults hr2 = CheckResults hr"
    using l e e2 by (simp add: list_eq_iff_nth_eq)
  have x: "xs = [xs ! 0, xs ! 1, xs ! 2]" if "length xs = 3" for xs :: "healthResultEntry list"
    using that by (auto simp: list_eq_iff_nth_eq less_Suc_eq numeral_3_eq_3 numeral_2_eq_2)
  have r: "map entryName (CheckResults hr) = [''check mongo'', ''check kafka'', ''check api'']"
    "map entryHealth (CheckResults hr) = [healthy, unhealthy, degraded]"
    by (subst x [OF l(1)], simp add: e, simp add: fixture_simps)+
  have r3: "map entryName (CheckResults hr3)
       = [''check the foo bar'', ''check the unhealthy one'', ''check the bar baz'']"
    "map entryHealth (CheckResults hr3) = [healthy, unhealthy, degraded]"
    by (subst x [OF l(3)], simp add: e3, simp add: fixture_simps)+
  have o: "completionOrder [2, 0] [0, 1, 2 :: nat] = [2, 0, 1]"
    "completionOrder [1, 1, 0] [0, 1, 2 :: nat] = [1, 2, 0]"
    by (simp_all add: Let_def)
  from c c2 c3 o r same r3 show ?thesis by simp
qed

section \<open>What Check changes\<close>

lemma runAll_frame:
  "runAll (runChecker upd w) ts (rs, p) = Inr (rs', p') \<Longrightarrow>
   (\<And>ch cr q. f (upd ch cr q) = f q) \<Longrightarrow> f p' = f p"
proof (induction ts arbitrary: rs p)
  case Nil
  then show ?case by simp
next
  case (Cons t ts)
  obtain i0 ch0 where t: "t = (i0, ch0)" by (cases t)
  from Cons.prems(1) [unfolded t] have
    run: "runAll (runChecker upd w) ts
       (rs[i0 := resultEntry ch0 (checkFunc ch0 w zeroCheckResponse)],
        upd ch0 (checkFunc ch0 w zeroCheckResponse) p) = Inr (rs', p')"
    by (rule runAll_cases [THEN conjunct2])
  from Cons.IH [OF run Cons.prems(2)] Cons.prems(2) show ?case by simp
qed

lemma updateGauges_frame:
  "status (updateGauges g ch cr sts p) = status p \<and>
   registered (updateGauges g ch cr sts p) = registered p \<and>
   counterVecs (updateGauges g ch cr sts p) = counterVecs p \<and>
   allocated (updateGauges g ch cr sts p) = allocated p"
  by (induction sts arbitrary: p) (simp_all add: gaugeSet_def)

lemma updateCheckMetrics_frame:
  "status (updateCheckMetrics ch cr p) = status p"
  "registered (updateCheckMetrics ch cr p) = registered p"
  "counterVecs (updateCheckMetrics ch cr p) = counterVecs p"
  "allocated (updateCheckMetrics ch cr p) = allocated p"
  by (simp_all add: updateCheckMetrics_def updateGauges_frame split: option.splits)

lemma updateCheckMetrics_ctr_frame:
  "status (updateCheckMetrics_ctr ch cr p) = status p"
  "registered (updateCheckMetrics_ctr ch cr p) = registered p"
  "gaugeVecs (updateCheckMetrics_ctr ch cr p) = gaugeVecs p"
  "allocated (updateCheckMetrics_ctr ch cr p) = allocated p"
  by (simp_all add: updateCheckMetrics_ctr_def counterInc_def split: option.splits)

lemma Check_run:
  "Check sched w p = Inr (hr, p') \<Longrightarrow>
   runAll (runChecker updateCheckMetrics w)
     (completionOrder sched (zip [0..<length (checkers (status p))] (checkers (status p))))
     (replicate (length (checkers (status p))) zeroEntry, p) = Inr (CheckResults hr, p')"
  by (auto simp: Check_def Let_def newHealthResult_def goroutine_def split: sum.splits)

lemma Check_ctr_run:
  "Check_ctr w p = Inr (hr, p') \<Longrightarrow>
   runAll (runChecker updateCheckMetrics_ctr w)
     (zip [0..<length (checkers (status p))] (checkers (status p)))
     (replicate (length (checkers (status p))) zeroEntry, p) = Inr (CheckResults hr, p')"
  by (auto simp: Check_ctr_def Let_def newHealthResult_def loopBody_ctr_def split: sum.splits)

text \<open>
  C10.  \<^verbatim>\<open>Check\<close> leaves the registry unchanged.  A probe of the model reads the
  world and fills its response, it has no access to the Status; then, when
  \<^verbatim>\<open>Check\<close> returns, the Status (name, description, owners, links, revision, the
  checkers with their counter handles, the readiness predicate and the gauge handle)
  is what it was when the call began, and so are the registered metric names and the
  allocated vectors.  Only the contents of the metric vectors may differ.
\<close>

theorem Check_leaves_registry_unchanged:
  assumes "Check sched w p = Inr (hr, p') \<or> Check_ctr w p = Inr (hr, p')"
  shows "status p' = status p \<and> registered p' = registered p \<and> allocated p' = allocated p"
  using assms
proof
  assume "Check sched w p = Inr (hr, p')"
  note run = Check_run [OF this]
  show ?thesis
    using runAll_frame [OF run, of status] runAll_frame [OF run, of registered]
      runAll_frame [OF run, of allocated]
    by (simp add: updateCheckMetrics_frame)
next
  assume "Check_ctr w p = Inr (hr, p')"
  note run = Check_ctr_run [OF this]
  show ?thesis
    using runAll_frame [OF run, of status] runAll_frame [OF run, of registered]
      runAll_frame [OF run, of allocated]
    by (simp add: updateCheckMetrics_ctr_frame)
qed

text \<open>
  A round on each registry of the tests: the Status and the handles are the same
  afterwards, the contents of the gauge vector and of the first counter vector are
  not.
\<close>

lemmas Check_eval =
  Check_def Check_ctr_def newHealthResult_def goroutine_def loopBody_ctr_def runChecker_def
  setSlot_def updateCheckMetrics_def updateCheckMetrics_ctr_def possibleStatuses_def
  gaugeSet_def counterInc_def zeroEntry_def safeMetricName_ascii

theorem Check_leaves_registry_unchanged_witness:
  "(\<exists>hr p'. Check [1] () mongoApp = Inr (hr, p') \<and> status p' = status mongoApp \<and>
      checkResultGauge (status p') = Some 0 \<and> registered p' = [healthcheckStatus] \<and>
      gaugeVecs p' 0 \<noteq> gaugeVecs mongoApp 0) \<and>
   (\<exists>hr p'. Check_ctr () counterApp = Inr (hr, p') \<and> status p' = status counterApp \<and>
      map checkCounter (checkers (status p')) = [Some 0, Some 1, Some 2] \<and>
      counterVecs p' \<noteq> counterVecs counterApp)"
proof -
  obtain hr p' where c: "Check [1] () mongoApp = Inr (hr, p')"
    using Check_returns [of "[1]" "()" mongoApp] by blast
  obtain hr3 p3 where c3: "Check_ctr () counterApp = Inr (hr3, p3)"
    using Check_ctr_returns [of "()" counterApp] by blast
  from Check_leaves_registry_unchanged [of "[1]" "()" mongoApp hr p'] c
  have f: "status p' = status mongoApp" "registered p' = registered mongoApp" by simp_all
  from Check_leaves_registry_unchanged [of "[]" "()" counterApp hr3 p3] c3
  have f3: "status p3 = status counterApp" by simp
  have g: "checkResultGauge (status mongoApp) = Some 0" "registered mongoApp = [healthcheckStatus]"
    by (simp_all add: fixture_simps)
  have g3: "map checkCounter (checkers (status counterApp)) = [Some 0, Some 1, Some 2]"
    by (simp add: fixture_simps)
  have d: "gaugeVecs p' 0 (''check_mongo'', ''healthy'') = Some 1"
    "gaugeVecs mongoApp 0 (''check_mongo'', ''healthy'') = None"
    using c by (auto simp: fixture_simps Check_eval)
  then have d': "gaugeVecs p' 0 \<noteq> gaugeVecs mongoApp 0" by auto
  have d3: "counterVecs p3 0 ''healthy'' = 1" "counterVecs counterApp 0 ''healthy'' = 0"
    using c3 by (auto simp: fixture_simps Check_eval)
  then have d3': "counterVecs p3 \<noteq> counterVecs counterApp" by auto
  from c c3 f f3 g g3 d' d3' show ?thesis by simp
qed


section \<open>Probes that set no outcome\<close>





section \<open>Readiness derived from health\<close>

text \<open>
  C8.  \<^verbatim>\<open>ReadyUseHealthCheck\<close> installs the closure that, each time it is called, runs
  \<^verbatim>\<open>Check\<close> on the process as it is then (\<open>q\<close>, in the world \<open>w\<close> of the query)
  and answers ready exactly when the verdict of that run is healthy or degraded; the
  process after the query is the one that run of \<^verbatim>\<open>Check\<close> leaves.  It stores
  nothing else: the checkers are untouched.
\<close>

theorem ReadyUseHealthCheck_derived:
  "ready (status (ReadyUseHealthCheck p)) = Some FuncUseHealthCheck \<and>
   checkers (status (ReadyUseHealthCheck p)) = checkers (status p) \<and>
   (\<exists>hr q'. Check sched w q = Inr (hr, q') \<and>
      callReady (Check sched) FuncUseHealthCheck w q
        = Inr (Health hr = healthy \<or> Health hr = degraded, q')) \<and>
   (\<exists>hr q'. Check_ctr w q = Inr (hr, q') \<and>
      callReady Check_ctr FuncUseHealthCheck w q
        = Inr (Health hr = healthy \<or> Health hr = degraded, q'))"
proof -
  have 1: "ready (status (ReadyUseHealthCheck p)) = Some FuncUseHealthCheck"
    "checkers (status (ReadyUseHealthCheck p)) = checkers (status p)"
    by (simp_all add: ReadyUseHealthCheck_def)
  from Check_returns [of sched w q] obtain hr q' where c: "Check sched w q = Inr (hr, q')"
    by blast
  then have 2: "callReady (Check sched) FuncUseHealthCheck w q
        = Inr (Health hr = healthy \<or> Health hr = degraded, q')" by simp
  from Check_ctr_returns [of w q] obtain hr3 q3 where c3: "Check_ctr w q = Inr (hr3, q3)"
    by blast
  then have 3: "callReady Check_ctr FuncUseHealthCheck w q
        = Inr (Health hr3 = healthy \<or> Health hr3 = degraded, q3)" by simp
  from 1 c 2 c3 3 show ?thesis by blast
qed

text \<open>
  One registry queried in two worlds: ready while the database is up, not ready when
  it is down.  A degraded checker added after the predicate was installed: ready.
\<close>

theorem ReadyUseHealthCheck_derived_witness:
  "ready (status (ReadyUseHealthCheck (AddChecker ''db''
       (\<lambda>up. if up then Healthy ''up'' else Unhealthy ''down'' ''restart'' ''no data'')
       (NewStatus ''name'' ''desc'')))) = Some FuncUseHealthCheck \<and>
   (\<exists>q'. callReady (Check []) FuncUseHealthCheck True (ReadyUseHealthCheck (AddChecker ''db''
       (\<lambda>up. if up then Healthy ''up'' else Unhealthy ''down'' ''restart'' ''no data'')
       (NewStatus ''name'' ''desc''))) = Inr (True, q')) \<and>
   (\<exists>q'. callReady (Check []) FuncUseHealthCheck False (ReadyUseHealthCheck (AddChecker ''db''
       (\<lambda>up. if up then Healthy ''up'' else Unhealthy ''down'' ''restart'' ''no data'')
       (NewStatus ''name'' ''desc''))) = Inr (False, q')) \<and>
   (\<exists>q'. callReady Check_ctr FuncUseHealthCheck True (AddChecker ''api''
       (\<lambda>up. Degraded ''slow'' ''wait'') (ReadyUseHealthCheck (NewStatus ''name'' ''desc'')))
       = Inr (True, q'))"
proof -
  let ?p = "AddChecker ''db''
       (\<lambda>up. if up then Healthy ''up'' else Unhealthy ''down'' ''restart'' ''no data'')
       (NewStatus ''name'' ''desc'') :: bool process"
  let ?q = "ReadyUseHealthCheck ?p"
  let ?r = "AddChecker ''api'' (\<lambda>up. Degraded ''slow'' ''wait'')
              (ReadyUseHealthCheck (NewStatus ''name'' ''desc'')) :: bool process"
  note rs = fixture_simps ReadyUseHealthCheck_def
  from ReadyUseHealthCheck_derived [of ?p "[]" True ?q] obtain hr1 q1 where
    i: "ready (status ?q) = Some FuncUseHealthCheck" and
    c1: "Check [] True ?q = Inr (hr1, q1)" and
    r1: "callReady (Check []) FuncUseHealthCheck True ?q
           = Inr (Health hr1 = healthy \<or> Health hr1 = degraded, q1)"
    by blast
  have h1: "Health hr1 = healthy"
    by (subst Check_either [OF disjI1, OF c1]) (simp add: rs)
  from ReadyUseHealthCheck_derived [of ?p "[]" False ?q] obtain hr2 q2 where
    c2: "Check [] False ?q = Inr (hr2, q2)" and
    r2: "callReady (Check []) FuncUseHealthCheck False ?q
           = Inr (Health hr2 = healthy \<or> Health hr2 = degraded, q2)"
    by blast
  have h2: "Health hr2 = unhealthy"
    by (subst Check_either [OF disjI1, OF c2]) (simp add: rs)
  from ReadyUseHealthCheck_derived [of ?p "[]" True ?r] obtain hr3 q3 where
    c3: "Check_ctr True ?r = Inr (hr3, q3)" and
    r3: "callReady Check_ctr FuncUseHealthCheck True ?r
           = Inr (Health hr3 = healthy \<or> Health hr3 = degraded, q3)"
    by blast
  have h3: "Health hr3 = degraded"
    by (subst Check_either [OF disjI2, OF c3]) (simp add: rs)
  from i r1 r2 r3 h1 h2 h3 show ?thesis
    by (simp add: outcomes_distinct outcomes_distinct [symmetric])
qed

section \<open>The shared gauge\<close>

lemma updateGauges_gauge:
  "gaugeVecs (updateGauges g ch cr sts p) g' (nm, l) =
     (if g' = g \<and> nm = safeMetricName (checkerName ch) \<and> l \<in> set sts
      then Some (if health cr = l then 1 else 0)
      else gaugeVecs p g' (nm, l))"
  by (induction sts arbitrary: p) (auto simp: gaugeSet_def)

lemma updateCheckMetrics_gauge:
  "checkResultGauge (status p) = Some g \<Longrightarrow>
   gaugeVecs (updateCheckMetrics ch cr p) g (nm, l) =
     (if nm = safeMetricName (checkerName ch) \<and> l \<in> set possibleStatuses
      then Some (if health cr = l then 1 else 0)
      else gaugeVecs p g (nm, l))"
  by (simp add: updateCheckMetrics_def updateGauges_gauge)

lemma runAll_gauge_other:
  "runAll (runChecker updateCheckMetrics w) ts (rs, p) = Inr (rs', p') \<Longrightarrow>
   checkResultGauge (status p) = Some g \<Longrightarrow>
   \<forall>t\<in>set ts. safeMetricName (checkerName (snd t)) \<noteq> nm \<Longrightarrow>
   gaugeVecs p' g (nm, l) = gaugeVecs p g (nm, l)"
proof (induction ts arbitrary: rs p)
  case Nil
  then show ?case by simp
next
  case (Cons t ts)
  obtain i0 ch0 where t: "t = (i0, ch0)" by (cases t)
  let ?cr = "checkFunc ch0 w zeroCheckResponse"
  let ?p1 = "updateCheckMetrics ch0 ?cr p"
  from Cons.prems(1) [unfolded t] have
    run: "runAll (runChecker updateCheckMetrics w) ts
       (rs[i0 := resultEntry ch0 ?cr], ?p1) = Inr (rs', p')"
    by (rule runAll_cases [THEN conjunct2])
  have g1: "checkResultGauge (status ?p1) = Some g"
    using Cons.prems(2) by (simp add: updateCheckMetrics_frame)
  have "gaugeVecs p' g (nm, l) = gaugeVecs ?p1 g (nm, l)"
    using Cons.IH [OF run g1] Cons.prems(3) by simp
  also have "\<dots> = gaugeVecs p g (nm, l)"
    using Cons.prems(3) t by (auto simp: updateCheckMetrics_gauge [OF Cons.prems(2)])
  finally show ?case .
qed

lemma runAll_gauge_set:
  "runAll (runChecker updateCheckMetrics w) ts (rs, p) = Inr (rs', p') \<Longrightarrow>
   checkResultGauge (status p) = Some g \<Longrightarrow>
   l \<in> set possibleStatuses \<Longrightarrow>
   \<exists>t\<in>set ts. safeMetricName (checkerName (snd t)) = nm \<Longrightarrow>
   \<forall>t\<in>set ts. safeMetricName (checkerName (snd t)) = nm \<longrightarrow>
      health (checkFunc (snd t) w zeroCheckResponse) = h \<Longrightarrow>
   gaugeVecs p' g (nm, l) = Some (if h = l then 1 else 0)"
proof (induction ts arbitrary: rs p)
  case Nil
  then show ?case by simp
next
  case (Cons t ts)
  obtain i0 ch0 where t: "t = (i0, ch0)" by (cases t)
  let ?cr = "checkFunc ch0 w zeroCheckResponse"
  let ?p1 = "updateCheckMetrics ch0 ?cr p"
  from Cons.prems(1) [unfolded t] have
    run: "runAll (runChecker updateCheckMetrics w) ts
       (rs[i0 := resultEntry ch0 ?cr], ?p1) = Inr (rs', p')"
    by (rule runAll_cases [THEN conjunct2])
  have g1: "checkResultGauge (status ?p1) = Some g"
    using Cons.prems(2) by (simp add: updateCheckMetrics_frame)
  show ?case
  proof (cases "\<exists>t\<in>set ts. safeMetricName (checkerName (snd t)) = nm")
    case True
    from Cons.IH [OF run g1 Cons.prems(3) True] Cons.prems(5) show ?thesis by simp
  next
    case False
    with Cons.prems(4,5) t have nm: "safeMetricName (checkerName ch0) = nm"
      and h: "health ?cr = h" by auto
    from False have "\<forall>t\<in>set ts. safeMetricName (checkerName (snd t)) \<noteq> nm" by simp
    from runAll_gauge_other [OF run g1 this]
    have "gaugeVecs p' g (nm, l) = gaugeVecs ?p1 g (nm, l)" .
    also have "\<dots> = Some (if h = l then 1 else 0)"
      using nm h Cons.prems(3) by (simp add: updateCheckMetrics_gauge [OF Cons.prems(2)])
    finally show ?thesis .
  qed
qed

text \<open>
  C5, as amended.  With the gauge enabled, take any call of \<^verbatim>\<open>Check\<close> that returns,
  under any schedule and from any earlier contents of the gauge vector, and a checker
  whose sanitised name is shared with no checker that produced a different outcome in
  this round (in particular a checker whose sanitised name is unique).  Then the three
  gauges keyed by the sanitised name of the checker and the labels healthy, degraded
  and unhealthy are all set: to 1 where the label is the health the checker produced,
  to 0 elsewhere.  So exactly one reads 1 when the probe set an outcome, and all three
  read 0 when it set none.
\<close>

theorem Check_sets_outcome_gauges:
  assumes c: "Check sched w p = Inr (hr, p')"
    and g: "checkResultGauge (status p) = Some g"
    and i: "i < length (checkers (status p))"
    and same: "\<forall>j<length (checkers (status p)).
        safeMetricName (checkerName (checkers (status p) ! j))
          = safeMetricName (checkerName (checkers (status p) ! i)) \<longrightarrow>
        health (checkFunc (checkers (status p) ! j) w zeroCheckResponse)
          = health (checkFunc (checkers (status p) ! i) w zeroCheckResponse)"
  shows "gaugeVecs p' g (safeMetricName (checkerName (checkers (status p) ! i)), healthy)
           = Some (if health (checkFunc (checkers (status p) ! i) w zeroCheckResponse) = healthy
                   then 1 else 0) \<and>
         gaugeVecs p' g (safeMetricName (checkerName (checkers (status p) ! i)), degraded)
           = Some (if health (checkFunc (checkers (status p) ! i) w zeroCheckResponse) = degraded
                   then 1 else 0) \<and>
         gaugeVecs p' g (safeMetricName (checkerName (checkers (status p) ! i)), unhealthy)
           = Some (if health (checkFunc (checkers (status p) ! i) w zeroCheckResponse) = unhealthy
                   then 1 else 0)"
proof -
  let ?chs = "checkers (status p)"
  let ?ts = "completionOrder sched (zip [0..<length ?chs] ?chs)"
  let ?nm = "safeMetricName (checkerName (?chs ! i))"
  let ?h = "health (checkFunc (?chs ! i) w zeroCheckResponse)"
  note run = Check_run [OF c]
  have set_ts: "set ?ts = set (zip [0..<length ?chs] ?chs)"
    using mset_completionOrder [of sched "zip [0..<length ?chs] ?chs"] by (rule mset_eq_setD)
  have ex: "\<exists>t\<in>set ?ts. safeMetricName (checkerName (snd t)) = ?nm"
  proof
    show "(i, ?chs ! i) \<in> set ?ts" using i by (simp add: set_ts started_mem)
  qed simp
  have al: "\<forall>t\<in>set ?ts. safeMetricName (checkerName (snd t)) = ?nm \<longrightarrow>
      health (checkFunc (snd t) w zeroCheckResponse) = ?h"
  proof
    fix t assume "t \<in> set ?ts"
    then have t: "t \<in> set (zip [0..<length ?chs] ?chs)" by (simp only: set_ts)
    obtain j ch where "t = (j, ch)" by (cases t)
    with t have "j < length ?chs" "t = (j, ?chs ! j)" by (simp_all add: started_mem)
    with same show "safeMetricName (checkerName (snd t)) = ?nm \<longrightarrow>
      health (checkFunc (snd t) w zeroCheckResponse) = ?h" by simp
  qed
  have "gaugeVecs p' g (?nm, l) = Some (if ?h = l then 1 else 0)"
    if "l \<in> set possibleStatuses" for l
    using runAll_gauge_set [OF run g that ex al] .
  then show ?thesis by (simp add: possibleStatuses_def)
qed


text \<open>
  The registry of the test, the degraded checker "check api" completing first: its
  gauges read 0, 1, 0 for healthy, degraded, unhealthy.
\<close>

theorem Check_sets_outcome_gauges_witness:
  "\<exists>hr p'. Check [2, 0] () mongoApp = Inr (hr, p') \<and>
     gaugeVecs p' 0 (''check_api'', healthy) = Some 0 \<and>
     gaugeVecs p' 0 (''check_api'', degraded) = Some 1 \<and>
     gaugeVecs p' 0 (''check_api'', unhealthy) = Some 0"
proof -
  obtain hr p' where c: "Check [2, 0] () mongoApp = Inr (hr, p')"
    using Check_returns [of "[2, 0]" "()" mongoApp] by blast
  have g: "checkResultGauge (status mongoApp) = Some 0"
    and n: "length (checkers (status mongoApp)) = 3"
    and nm: "map (\<lambda>ch. safeMetricName (checkerName ch)) (checkers (status mongoApp))
              = [''check_mongo'', ''check_kafka'', ''check_api'']"
    and h: "health (checkFunc (checkers (status mongoApp) ! 2) () zeroCheckResponse) = degraded"
    by (simp_all add: fixture_simps safeMetricName_ascii)
  have nm2: "safeMetricName (checkerName (checkers (status mongoApp) ! j))
              = [''check_mongo'', ''check_kafka'', ''check_api''] ! j" if "j < 3" for j
    using that n nth_map [of j "checkers (status mongoApp)" "\<lambda>ch. safeMetricName (checkerName ch)"]
    by (simp add: nm)
  have same: "\<forall>j<length (checkers (status mongoApp)).
        safeMetricName (checkerName (checkers (status mongoApp) ! j))
          = safeMetricName (checkerName (checkers (status mongoApp) ! 2)) \<longrightarrow>
        health (checkFunc (checkers (status mongoApp) ! j) () zeroCheckResponse)
          = health (checkFunc (checkers (status mongoApp) ! 2) () zeroCheckResponse)"
    unfolding n by (auto simp: nm2 less_Suc_eq numeral_3_eq_3 numeral_2_eq_2)
  from Check_sets_outcome_gauges [OF c g _ same] n
  show ?thesis using c by (simp add: nm2 h outcomes_distinct outcomes_distinct [symmetric])
qed

text \<open>
  C5 as stated fails: for a checker "db" whose probe sets no outcome, none of the three
  gauges is set to 1 by \<^verbatim>\<open>Check\<close>; all three are set to 0.
\<close>

theorem Check_gauges_unset_counterexample:
  "\<exists>hr p'. Check [] () (projr (WithInstrumentedChecks
        (AddChecker ''db'' (\<lambda>w cr. cr) (NewStatus ''name'' ''desc'')))) = Inr (hr, p') \<and>
     gaugeVecs p' 0 (''db'', healthy) = Some 0 \<and>
     gaugeVecs p' 0 (''db'', degraded) = Some 0 \<and>
     gaugeVecs p' 0 (''db'', unhealthy) = Some 0"
proof -
  let ?p = "projr (WithInstrumentedChecks
        (AddChecker ''db'' (\<lambda>w cr. cr) (NewStatus ''name'' ''desc''))) :: unit process"
  obtain hr p' where c: "Check [] () ?p = Inr (hr, p')"
    using Check_returns [of "[]" "()" ?p] by blast
  then have "gaugeVecs p' 0 (''db'', healthy) = Some 0 \<and>
     gaugeVecs p' 0 (''db'', degraded) = Some 0 \<and>
     gaugeVecs p' 0 (''db'', unhealthy) = Some 0"
    by (auto simp: fixture_simps Check_eval)
  with c show ?thesis by simp
qed

section \<open>Where names are sanitised\<close>




section \<open>The counters\<close>

lemma counterHandles_append:
  "counterHandles (p\<lparr>status := (status p)\<lparr>checkers := checkers (status p) @ [ch]\<rparr>\<rparr>)
     = counterHandles p @ (case checkCounter ch of None \<Rightarrow> [] | Some c \<Rightarrow> [c])"
  by (simp add: counterHandles_def List.map_filter_def split: option.splits)

lemma countersFresh_NewStatus: "countersFresh (NewStatus nm descr)"
  by (simp add: countersFresh_def counterHandles_def NewStatus_def List.map_filter_def)

lemma countersFresh_AddChecker: "countersFresh p \<Longrightarrow> countersFresh (AddChecker nm f p)"
  by (simp add: countersFresh_def AddChecker_def counterHandles_append)

lemma countersFresh_AddCheckerWithMetrics:
  assumes "countersFresh p" "AddCheckerWithMetrics nm f p = Inr p'"
  shows "countersFresh p'"
proof -
  let ?p1 = "p\<lparr>allocated := Suc (allocated p),
                counterVecs := (counterVecs p)(allocated p := (\<lambda>l. 0))\<rparr>"
  let ?p2 = "?p1\<lparr>registered := checkCounterName nm # registered ?p1\<rparr>"
  let ?ch = "\<lparr>checkerName = nm, checkFunc = f, checkCounter = Some (allocated p)\<rparr>"
  from assms(2) have p': "p' = ?p2\<lparr>status := (status ?p2)\<lparr>checkers := checkers (status ?p2) @ [?ch]\<rparr>\<rparr>"
    by (auto simp: AddCheckerWithMetrics_def AddMetrics_def Let_def split: if_splits)
  have h: "counterHandles ?p2 = counterHandles p" by (simp add: counterHandles_def)
  have "counterHandles p' = counterHandles p @ [allocated p]"
    unfolding p' counterHandles_append h by simp
  moreover have "allocated p' = Suc (allocated p)" unfolding p' by simp
  ultimately show ?thesis using assms(1)
    by (auto simp: countersFresh_def list_all_iff less_Suc_eq)
qed

lemma map_filter_distinct_index:
  "distinct (List.map_filter f xs) \<Longrightarrow> i < length xs \<Longrightarrow> j < length xs \<Longrightarrow>
   f (xs ! i) = Some c \<Longrightarrow> f (xs ! j) = Some c \<Longrightarrow> j = i"
proof (induction xs arbitrary: i j)
  case Nil
  then show ?case by simp
next
  case (Cons x xs)
  have mem: "c \<in> set (List.map_filter f xs)" if "k < length xs" "f (xs ! k) = Some c" for k
    using that by (force simp: List.map_filter_def in_set_conv_nth image_iff)
  show ?case
  proof (cases i)
    case 0
    show ?thesis
    proof (cases j)
      case 0
      with \<open>i = 0\<close> show ?thesis by simp
    next
      case (Suc j')
      with Cons.prems 0 mem [of j'] show ?thesis
        by (auto simp: List.map_filter_def)
    qed
  next
    case (Suc i')
    show ?thesis
    proof (cases j)
      case 0
      with Cons.prems Suc mem [of i'] show ?thesis
        by (auto simp: List.map_filter_def)
    next
      case (Suc j')
      with Cons.prems \<open>i = Suc i'\<close> Cons.IH [of i' j'] show ?thesis
        by (auto simp: List.map_filter_def split: option.splits if_splits)
    qed
  qed
qed

lemma countersFresh_index:
  assumes "countersFresh p" "i < length (checkers (status p))" "j < length (checkers (status p))"
    "checkCounter (checkers (status p) ! i) = Some c"
    "checkCounter (checkers (status p) ! j) = Some c"
  shows "j = i"
proof -
  have d: "distinct (List.map_filter checkCounter (checkers (status p)))"
    using assms(1) by (simp add: countersFresh_def counterHandles_def)
  from map_filter_distinct_index [OF d assms(2,3,4,5)] show ?thesis .
qed


lemma updateCheckMetrics_ctr_counter:
  "counterVecs (updateCheckMetrics_ctr ch cr p) c l =
     counterVecs p c l + (if checkCounter ch = Some c \<and> health cr = l then 1 else 0)"
  by (simp add: updateCheckMetrics_ctr_def counterInc_def split: option.splits)

lemma runAll_counter:
  "runAll (runChecker updateCheckMetrics_ctr w) ts (rs, p) = Inr (rs', p') \<Longrightarrow>
   counterVecs p' c l =
     counterVecs p c l +
     length (filter (\<lambda>t. checkCounter (snd t) = Some c \<and>
                          health (checkFunc (snd t) w zeroCheckResponse) = l) ts)"
proof (induction ts arbitrary: rs p)
  case Nil
  then show ?case by simp
next
  case (Cons t ts)
  obtain i0 ch0 where t: "t = (i0, ch0)" by (cases t)
  let ?cr = "checkFunc ch0 w zeroCheckResponse"
  from Cons.prems(1) [unfolded t] have
    run: "runAll (runChecker updateCheckMetrics_ctr w) ts
       (rs[i0 := resultEntry ch0 ?cr], updateCheckMetrics_ctr ch0 ?cr p) = Inr (rs', p')"
    by (rule runAll_cases [THEN conjunct2])
  from Cons.IH [OF run] show ?case
    by (simp add: t updateCheckMetrics_ctr_counter)
qed

lemma length_filter_started:
  "length (filter (\<lambda>t. P (snd t)) (zip [0..<length chs] chs)) = length (filter P chs)"
proof -
  have "filter P (map snd (zip [0..<length chs] chs))
          = map snd (filter (P \<circ> snd) (zip [0..<length chs] chs))"
    by (rule filter_map)
  then have "length (filter P chs) = length (filter (P \<circ> snd) (zip [0..<length chs] chs))"
    by (simp add: map_snd_zip)
  then show ?thesis by (simp add: comp_def)
qed

lemma started_filter_one:
  assumes i: "i < length chs" and P: "P (chs ! i)"
    and uniq: "\<And>j. j < length chs \<Longrightarrow> P (chs ! j) \<Longrightarrow> j = i"
  shows "length (filter (\<lambda>t. P (snd t)) (zip [0..<length chs] chs)) = 1"
proof -
  have "{k. k < length chs \<and> P (chs ! k)} = {i}"
    using i P uniq by blast
  then have "length (filter P chs) = 1" by (simp add: length_filter_conv_card)
  then show ?thesis by (simp only: length_filter_started)
qed

lemma started_filter_none:
  assumes "\<And>j. j < length chs \<Longrightarrow> \<not> P (chs ! j)"
  shows "length (filter (\<lambda>t. P (snd t)) (zip [0..<length chs] chs)) = 0"
proof -
  have "{k. k < length chs \<and> P (chs ! k)} = {}"
    using assms by blast
  then have "length (filter P chs) = 0" by (simp add: length_filter_conv_card)
  then show ?thesis by (simp only: length_filter_started)
qed

lemma Check_ctr_counter:
  assumes fresh: "countersFresh p" and i: "i < length (checkers (status p))"
    and c: "checkCounter (checkers (status p) ! i) = Some c"
    and chk: "Check_ctr w p = Inr (hr, p')"
  shows "counterVecs p' c =
           (counterVecs p c)
             (health (checkFunc (checkers (status p) ! i) w zeroCheckResponse) :=
                counterVecs p c (health (checkFunc (checkers (status p) ! i) w zeroCheckResponse)) + 1)"
proof
  fix l
  let ?chs = "checkers (status p)"
  let ?h = "health (checkFunc (?chs ! i) w zeroCheckResponse)"
  let ?P = "\<lambda>ch. checkCounter ch = Some c \<and> health (checkFunc ch w zeroCheckResponse) = l"
  note cnt = runAll_counter [OF Check_ctr_run [OF chk], of c l]
  show "counterVecs p' c l = ((counterVecs p c)(?h := counterVecs p c ?h + 1)) l"
  proof (cases "l = ?h")
    case True
    have "length (filter (\<lambda>t. ?P (snd t)) (zip [0..<length ?chs] ?chs)) = 1"
    proof (rule started_filter_one [OF i])
      show "?P (?chs ! i)" using c True by simp
    next
      fix j assume "j < length ?chs" "?P (?chs ! j)"
      with countersFresh_index [OF fresh i _ c] show "j = i" by simp
    qed
    with cnt True show ?thesis by simp
  next
    case False
    have "length (filter (\<lambda>t. ?P (snd t)) (zip [0..<length ?chs] ?chs)) = 0"
    proof (rule started_filter_none)
      fix j assume j: "j < length ?chs"
      show "\<not> ?P (?chs ! j)"
      proof
        assume P: "?P (?chs ! j)"
        with countersFresh_index [OF fresh i j c] have "j = i" by simp
        with P False show False by simp
      qed
    qed
    with cnt False show ?thesis by simp
  qed
qed

lemma Check_ctr_counter_mono:
  "Check_ctr w p = Inr (hr, p') \<Longrightarrow> counterVecs p c l \<le> counterVecs p' c l"
  using runAll_counter [OF Check_ctr_run, of w p hr p' c l] by simp

lemma Check_ctr_fresh:
  assumes "countersFresh p" "Check_ctr w p = Inr (hr, p')"
  shows "countersFresh p'"
proof -
  note run = Check_ctr_run [OF assms(2)]
  have "status p' = status p" "allocated p' = allocated p"
    using runAll_frame [OF run, of status] runAll_frame [OF run, of allocated]
    by (simp_all add: updateCheckMetrics_ctr_frame)
  with assms(1) show ?thesis by (simp add: countersFresh_def counterHandles_def)
qed

lemma Check_ctr_status:
  "Check_ctr w p = Inr (hr, p') \<Longrightarrow> status p' = status p"
  using runAll_frame [OF Check_ctr_run, of w p hr p' status]
  by (simp add: updateCheckMetrics_ctr_frame)

lemma MustRegister_frame:
  "MustRegister cs p = Inr p' \<Longrightarrow>
   status p' = status p \<and> allocated p' = allocated p \<and> counterVecs p' = counterVecs p \<and>
   gaugeVecs p' = gaugeVecs p"
  by (induction cs arbitrary: p) (auto split: if_splits)

lemma countersFresh_cong:
  "checkers (status p') = checkers (status p) \<Longrightarrow> allocated p' = allocated p \<Longrightarrow>
   countersFresh p' = countersFresh p"
  by (simp add: countersFresh_def counterHandles_def)

lemma countersFresh_setters:
  "countersFresh (AddOwner nm sl p) = countersFresh p"
  "countersFresh (AddLink descr u p) = countersFresh p"
  "countersFresh (SetRevision r p) = countersFresh p"
  "countersFresh (ReadyNone p) = countersFresh p"
  "countersFresh (ReadyAlways p) = countersFresh p"
  "countersFresh (ReadyNever p) = countersFresh p"
  "countersFresh (ReadyUseHealthCheck p) = countersFresh p"
  "countersFresh (Ready g p) = countersFresh p"
  by (simp_all add: countersFresh_def counterHandles_def AddOwner_def AddLink_def
        SetRevision_def ReadyNone_def ReadyAlways_def ReadyNever_def ReadyUseHealthCheck_def
        Ready_def)

lemma built_ctr_fresh: "built_ctr p \<Longrightarrow> countersFresh p"
proof (induction rule: built_ctr.induct)
  case (NewStatus nm descr)
  show ?case by (rule countersFresh_NewStatus)
next
  case (AddCheckerWithMetrics p nm f p')
  then show ?case by (auto intro: countersFresh_AddCheckerWithMetrics)
next
  case (AddChecker p nm f)
  then show ?case by (simp add: countersFresh_AddChecker)
next
  case (AddMetrics p cs p')
  with MustRegister_frame [of cs p p'] show ?case
    by (simp add: AddMetrics_def countersFresh_cong [of p' p])
next
  case (Check p w hr p')
  then show ?case by (auto intro: Check_ctr_fresh)
qed (simp_all add: countersFresh_setters)

lemma built_ctr_counterApp: "built_ctr counterApp"
proof -
  let ?p0 = "NewStatus ''my app'' ''app description'' :: unit process"
  let ?f1 = "\<lambda>w :: unit. Healthy ''check command completed ok''"
  let ?f2 = "\<lambda>w :: unit. Unhealthy ''thing failed'' ''fix the thing'' ''very bad''"
  let ?f3 = "\<lambda>w :: unit. Degraded ''thing failed'' ''fix the thing''"
  let ?p1 = "projr (AddCheckerWithMetrics ''check the foo bar'' ?f1 ?p0)"
  let ?p2 = "projr (AddCheckerWithMetrics ''check the unhealthy one'' ?f2 ?p1)"
  have a1: "AddCheckerWithMetrics ''check the foo bar'' ?f1 ?p0 = Inr ?p1"
    by (simp add: AddCheckerWithMetrics_def AddMetrics_def NewStatus_def)
  have a2: "AddCheckerWithMetrics ''check the unhealthy one'' ?f2 ?p1 = Inr ?p2"
    by (simp add: AddCheckerWithMetrics_def AddMetrics_def NewStatus_def checkCounterName_def)
  have a3: "AddCheckerWithMetrics ''check the bar baz'' ?f3 ?p2 = Inr counterApp"
    by (simp add: counterApp_def AddCheckerWithMetrics_def AddMetrics_def NewStatus_def
          checkCounterName_def)
  from built_ctr.NewStatus have "built_ctr ?p0" .
  from built_ctr.AddCheckerWithMetrics [OF this a1] have "built_ctr ?p1" .
  from built_ctr.AddCheckerWithMetrics [OF this a2] have "built_ctr ?p2" .
  from built_ctr.AddCheckerWithMetrics [OF this a3] show ?thesis .
qed

lemma CheckRounds_ctr_healthy:
  assumes "countersFresh p" "i < length (checkers (status p))"
    "checkCounter (checkers (status p) ! i) = Some c"
    "\<forall>w\<in>set ws. health (checkFunc (checkers (status p) ! i) w zeroCheckResponse) = healthy"
  shows "\<exists>p''. CheckRounds_ctr ws p = Inr p'' \<and>
           counterVecs p'' c = (counterVecs p c)(healthy := counterVecs p c healthy + length ws)"
  using assms
proof (induction ws arbitrary: p)
  case Nil
  then show ?case by simp
next
  case (Cons w ws)
  from Check_ctr_returns [of w p] obtain hr p1 where c1: "Check_ctr w p = Inr (hr, p1)" by blast
  note st = Check_ctr_status [OF c1]
  have h: "health (checkFunc (checkers (status p) ! i) w zeroCheckResponse) = healthy"
    using Cons.prems(4) by simp
  from Check_ctr_counter [OF Cons.prems(1,2,3) c1]
  have v1: "counterVecs p1 c = (counterVecs p c)(healthy := counterVecs p c healthy + 1)"
    by (simp only: h)
  have "\<exists>p''. CheckRounds_ctr ws p1 = Inr p'' \<and>
           counterVecs p'' c = (counterVecs p1 c)(healthy := counterVecs p1 c healthy + length ws)"
    using Cons.prems by (intro Cons.IH [OF Check_ctr_fresh [OF Cons.prems(1) c1]]) (simp_all add: st)
  then obtain p'' where r: "CheckRounds_ctr ws p1 = Inr p''"
    and v: "counterVecs p'' c = (counterVecs p1 c)(healthy := counterVecs p1 c healthy + length ws)"
    by blast
  from c1 r have "CheckRounds_ctr (w # ws) p = Inr p''" by simp
  moreover from v v1 have
    "counterVecs p'' c = (counterVecs p c)(healthy := counterVecs p c healthy + length (w # ws))"
    by (simp add: fun_eq_iff)
  ultimately show ?case by blast
qed

text \<open>
  C6.  Take a process built with the methods of the counter revision and one of its
  checkers that has a counter, that is, one registered with
  \<^verbatim>\<open>AddCheckerWithMetrics\<close>.  Every call of \<^verbatim>\<open>Check\<close> returns and leaves that
  counter as it was except at the label of the outcome the checker produced in this
  round, which is incremented by exactly 1; no counter of the process decreases.
  Hence after the rounds of a list of worlds in each of which the checker produces
  healthy, its healthy count has grown by the number of rounds and its other counts
  are unchanged (0 when they were 0).
\<close>

theorem Check_ctr_counts_outcomes:
  assumes "built_ctr p" "i < length (checkers (status p))"
    "checkCounter (checkers (status p) ! i) = Some c"
  shows "(\<exists>hr p'. Check_ctr w p = Inr (hr, p') \<and>
            counterVecs p' c =
              (counterVecs p c)
                (health (checkFunc (checkers (status p) ! i) w zeroCheckResponse) :=
                   counterVecs p c
                     (health (checkFunc (checkers (status p) ! i) w zeroCheckResponse)) + 1) \<and>
            (\<forall>c' l. counterVecs p c' l \<le> counterVecs p' c' l)) \<and>
         ((\<forall>w\<in>set ws.
              health (checkFunc (checkers (status p) ! i) w zeroCheckResponse) = healthy) \<longrightarrow>
          (\<exists>p''. CheckRounds_ctr ws p = Inr p'' \<and>
             counterVecs p'' c
               = (counterVecs p c)(healthy := counterVecs p c healthy + length ws)))"
proof -
  from Check_ctr_returns [of w p] obtain hr p' where c1: "Check_ctr w p = Inr (hr, p')" by blast
  note fresh = built_ctr_fresh [OF assms(1)]
  note v = Check_ctr_counter [OF fresh assms(2,3) c1]
  have m: "\<forall>c' l. counterVecs p c' l \<le> counterVecs p' c' l"
    using Check_ctr_counter_mono [OF c1] by simp
  from c1 v m CheckRounds_ctr_healthy [OF fresh assms(2,3), of ws] show ?thesis by blast
qed


text \<open>
  The registry of the counter test: after one round the healthy count of the first
  checker is 1, after two rounds 2, and its degraded and unhealthy counts stay 0.
\<close>

theorem Check_ctr_counts_outcomes_witness:
  "built_ctr counterApp \<and> checkCounter (checkers (status counterApp) ! 0) = Some 0 \<and>
   (\<exists>hr p'. Check_ctr () counterApp = Inr (hr, p') \<and>
      counterVecs p' 0 healthy = 1 \<and> counterVecs p' 0 degraded = 0 \<and>
      counterVecs p' 0 unhealthy = 0) \<and>
   (\<exists>p''. CheckRounds_ctr [(), ()] counterApp = Inr p'' \<and>
      counterVecs p'' 0 healthy = 2 \<and> counterVecs p'' 0 degraded = 0 \<and>
      counterVecs p'' 0 unhealthy = 0)"
proof -
  note f = built_ctr_counterApp
  have i: "0 < length (checkers (status counterApp))"
    and c: "checkCounter (checkers (status counterApp) ! 0) = Some 0"
    and h: "health (checkFunc (checkers (status counterApp) ! 0) () zeroCheckResponse) = healthy"
    and z: "counterVecs counterApp 0 = (\<lambda>l. 0)"
    by (simp_all add: fixture_simps fun_eq_iff)
  have hs: "\<forall>w\<in>set [(), ()].
      health (checkFunc (checkers (status counterApp) ! 0) w zeroCheckResponse) = healthy"
    using h by simp
  from Check_ctr_counts_outcomes [OF f i c, of "()" "[(), ()]"] hs
  obtain hr p' p'' where
    "Check_ctr () counterApp = Inr (hr, p')"
    "counterVecs p' 0 =
       (counterVecs counterApp 0)
         (health (checkFunc (checkers (status counterApp) ! 0) () zeroCheckResponse) :=
            counterVecs counterApp 0
              (health (checkFunc (checkers (status counterApp) ! 0) () zeroCheckResponse)) + 1)"
    "CheckRounds_ctr [(), ()] counterApp = Inr p''"
    "counterVecs p'' 0
       = (counterVecs counterApp 0)(healthy := counterVecs counterApp 0 healthy + length [(), ()])"
    by blast
  then show ?thesis
    using f c by (simp add: h z outcomes_distinct outcomes_distinct [symmetric])
qed

section \<open>The health endpoint and late registration\<close>

lemma ServeHTTP_rq:
  "ServeHTTP encode check (newHealthCheckHandler_rq hc0) w hc =
     (if checkers (status hc) = [] then Inr (notFound, hc) else writeHealth encode (check w hc))"
  by (simp add: newHealthCheckHandler_rq_def)

text \<open>
  The revision that looks at the checkers on every request does what the test
  \<^verbatim>\<open>TestHealthCheckHandler_PostServeNewChecker\<close> asks for: not found while there is no
  checker, and the encoded result of a fresh \<^verbatim>\<open>Check\<close> with status 200 once a checker
  has been added to the Status the handler was built for.
\<close>

lemma newHealthCheckHandler_rq_late_checker:
  assumes "encode = (\<lambda>hr. Some (Health hr))"
  shows "\<exists>hc'. ServeHTTP encode (Check sched) (newHealthCheckHandler_rq (NewStatus ''name'' ''desc'')) w
            (NewStatus ''name'' ''desc'') = Inr (notFound, NewStatus ''name'' ''desc'') \<and>
         ServeHTTP encode (Check sched) (newHealthCheckHandler_rq (NewStatus ''name'' ''desc'')) w
            (AddChecker ''check1'' (\<lambda>w. Healthy ''output1'') (NewStatus ''name'' ''desc''))
           = Inr (\<lparr>code = 200, body = healthy\<rparr>, hc')"
proof -
  let ?hc = "AddChecker ''check1'' (\<lambda>w. Healthy ''output1'') (NewStatus ''name'' ''desc'')
               :: 'a process"
  from Check_returns [of sched w ?hc] obtain hr hc' where c: "Check sched w ?hc = Inr (hr, hc')"
    by blast
  have "Health hr = healthy"
    by (subst Check_either [OF disjI1, OF c]) (simp add: fixture_simps)
  with c have "writeHealth encode (Check sched w ?hc) = Inr (\<lparr>code = 200, body = healthy\<rparr>, hc')"
    by (simp add: writeHealth_def assms)
  moreover have "checkers (status ?hc) \<noteq> []"
    "checkers (status (NewStatus ''name'' ''desc'' :: 'a process)) = []"
    by (simp_all add: AddChecker_def NewStatus_def)
  ultimately show ?thesis by (simp add: ServeHTTP_rq)
qed

text \<open>
  C9.  A GET on the health endpoint is to answer not-found while no checker is
  registered and otherwise 200 with a result computed for this request, going by the
  checkers registered at the time of the request: after a checker is added to the
  Status of an existing handler, the next request is to answer 200.  The handler of
  \<^verbatim>\<open>op/handlers.go\<close> does not: built for a Status without checkers it is
  \<^verbatim>\<open>http.NotFoundHandler()\<close>, and it answers 404 to a request made after
  \<^verbatim>\<open>AddChecker\<close>, whatever the encoder, the schedule and the world.
\<close>

theorem newHealthCheckHandler_late_checker_not_found:
  "newHealthCheckHandler (NewStatus ''name'' ''desc'') = NotFoundHandler \<and>
   ServeHTTP encode (Check sched) (newHealthCheckHandler (NewStatus ''name'' ''desc'')) w
       (AddChecker ''check1'' (\<lambda>w. Healthy ''output1'') (NewStatus ''name'' ''desc''))
     = Inr (notFound, AddChecker ''check1'' (\<lambda>w. Healthy ''output1'') (NewStatus ''name'' ''desc'')) \<and>
   code notFound = 404"
  by (simp add: newHealthCheckHandler_def NewStatus_def notFound_def)

end
